theory Spec2Isabelle
  imports Main
begin

section \<open>Provider pool manager (common.js, class ProviderPoolManager)\<close>

text \<open>
  An account is the \<^verbatim>\<open>config\<close> object held by one entry of \<^verbatim>\<open>providerStatus\<close>.
  Only the fields read or written by the selection and marking operations are kept.
  Instants (\<^verbatim>\<open>new Date().toISOString()\<close> strings in the source) are the
  millisecond value that \<^verbatim>\<open>new Date(s).getTime()\<close> reads back; \<^verbatim>\<open>null\<close> is
  \<open>None\<close>. Counters are JavaScript numbers holding integers. A string that may be
  \<^verbatim>\<open>undefined\<close> or \<^verbatim>\<open>null\<close> is a \<open>string option\<close>; \<^verbatim>\<open>notSupportedModels\<close>
  is \<open>None\<close> when the field is missing or is not an array.
\<close>

record account =
  uuid :: "string option"
  isHealthy :: bool
  isDisabled :: bool
  lastUsed :: "int option"
  usageCount :: int
  errorCount :: int
  lastErrorTime :: "int option"
  lastErrorMessage :: "string option"
  lastHealthCheckTime :: "int option"
  lastHealthCheckModel :: "string option"
  notSupportedModels :: "string list option"

text \<open>
  The manager: the ordered \<^verbatim>\<open>providerStatus\<close> array, the error budget
  \<^verbatim>\<open>maxErrorCount\<close> and the \<^verbatim>\<open>pendingSave\<close> flag that \<^verbatim>\<open>_debouncedSave\<close> raises
  (the timer itself is not modelled). A position in \<open>providerStatus\<close> stands for the
  identity of the JavaScript object stored there.
\<close>

record pool_manager =
  providerStatus :: "account list"
  maxErrorCount :: int
  pendingSave :: bool

text \<open>
  The postfix \<^verbatim>\<open>++\<close> on a counter \<open>n\<close>: the JavaScript number nearest to \<open>n + 1\<close>
  (IEEE 754 double precision, round to nearest, ties to the even significand). Every
  integer of magnitude up to \<open>2^53\<close> is a number, so the sum is exact while
  \<open>\<bar>n + 1\<bar> \<le> 2^53\<close>. The numbers of magnitude from \<open>2^53\<close> up to \<open>2^54\<close> are the even
  integers: there \<open>n + 1\<close> lies midway between \<open>n\<close> and \<open>n + 2\<close> and goes to the one whose
  half is even. From magnitude \<open>2^54\<close> on the next number away from zero is at least 4
  off and \<open>n\<close> itself is the result (at \<open>n = -2^54\<close> the sum lies midway between \<open>n\<close> and
  \<open>n + 2\<close>, and \<open>n\<close> is the one with the even significand). So the counter grows by one
  exactly when \<open>-2^53 \<le> n < 2^53\<close>.
\<close>

definition js_increment :: "int \<Rightarrow> int" where
  "js_increment n =
     (if \<bar>n + 1\<bar> \<le> 2 ^ 53 then n + 1
      else if \<bar>n\<bar> < 2 ^ 54 then (if n mod 4 = 0 then n else n + 2)
      else n)"

text \<open>JavaScript truthiness of a value that is a string, \<^verbatim>\<open>null\<close> or \<^verbatim>\<open>undefined\<close>.\<close>

definition truthy :: "string option \<Rightarrow> bool" where
  "truthy s = (case s of None \<Rightarrow> False | Some t \<Rightarrow> t \<noteq> [])"

text \<open>\<^verbatim>\<open>Array.prototype.find\<close>, returning the position of the first match.\<close>

fun find_index :: "('a \<Rightarrow> bool) \<Rightarrow> 'a list \<Rightarrow> nat option" where
  "find_index P [] = None"
| "find_index P (x # xs) = (if P x then Some 0 else map_option Suc (find_index P xs))"

definition findProvider :: "pool_manager \<Rightarrow> string option \<Rightarrow> nat option" where
  "findProvider pm u =
     (if \<not> truthy u then None
      else find_index (\<lambda>p. uuid p = u) (providerStatus pm))"

text \<open>\<^verbatim>\<open>providerConfig?.uuid\<close>: the argument itself may be \<^verbatim>\<open>null\<close> or \<^verbatim>\<open>undefined\<close>.\<close>

definition config_uuid :: "account option \<Rightarrow> string option" where
  "config_uuid providerConfig = (case providerConfig of None \<Rightarrow> None | Some c \<Rightarrow> uuid c)"

definition debouncedSave :: "pool_manager \<Rightarrow> pool_manager" where
  "debouncedSave pm = pm\<lparr>pendingSave := True\<rparr>"

text \<open>
  \<^verbatim>\<open>markProviderUnhealthy(providerConfig, errorMessage)\<close>. The two clock reads of the
  body are the arguments \<open>tErr\<close> (for \<^verbatim>\<open>lastErrorTime\<close>) and \<open>tUsed\<close> (for
  \<^verbatim>\<open>lastUsed\<close>).
\<close>

definition unhealthy_update :: "int \<Rightarrow> int \<Rightarrow> int \<Rightarrow> string option \<Rightarrow> account \<Rightarrow> account" where
  "unhealthy_update maxErr tErr tUsed errorMessage a =
     (let a1 = a\<lparr>errorCount := js_increment (errorCount a),
                  lastErrorTime := Some tErr,
                  lastUsed := Some tUsed\<rparr>;
          a2 = (if truthy errorMessage then a1\<lparr>lastErrorMessage := errorMessage\<rparr> else a1)
      in if errorCount a2 \<ge> maxErr then a2\<lparr>isHealthy := False\<rparr> else a2)"

definition markProviderUnhealthy ::
  "pool_manager \<Rightarrow> int \<Rightarrow> int \<Rightarrow> account option \<Rightarrow> string option \<Rightarrow> pool_manager" where
  "markProviderUnhealthy pm tErr tUsed providerConfig errorMessage =
     (if \<not> truthy (config_uuid providerConfig) then pm
      else case findProvider pm (config_uuid providerConfig) of
             None \<Rightarrow> pm
           | Some i \<Rightarrow>
               debouncedSave (pm\<lparr>providerStatus :=
                 (providerStatus pm)[i := unhealthy_update (maxErrorCount pm) tErr tUsed errorMessage
                                            (providerStatus pm ! i)]\<rparr>))"

text \<open>
  \<^verbatim>\<open>markProviderHealthy(providerConfig, resetUsageCount, healthCheckModel)\<close>, with the
  clock reads \<open>tCheck\<close> (for \<^verbatim>\<open>lastHealthCheckTime\<close>) and \<open>tUsed\<close> (for
  \<^verbatim>\<open>lastUsed\<close>, read only when the usage count is not reset).
\<close>

definition healthy_update :: "int \<Rightarrow> int \<Rightarrow> bool \<Rightarrow> string option \<Rightarrow> account \<Rightarrow> account" where
  "healthy_update tCheck tUsed resetUsageCount healthCheckModel a =
     (let a1 = a\<lparr>isHealthy := True,
                  errorCount := 0,
                  lastErrorTime := None,
                  lastErrorMessage := None,
                  lastHealthCheckTime := Some tCheck\<rparr>;
          a2 = (if truthy healthCheckModel then a1\<lparr>lastHealthCheckModel := healthCheckModel\<rparr>
                else a1)
      in if resetUsageCount then a2\<lparr>usageCount := 0\<rparr>
         else a2\<lparr>usageCount := js_increment (usageCount a2), lastUsed := Some tUsed\<rparr>)"

definition markProviderHealthy ::
  "pool_manager \<Rightarrow> int \<Rightarrow> int \<Rightarrow> account option \<Rightarrow> bool \<Rightarrow> string option \<Rightarrow> pool_manager" where
  "markProviderHealthy pm tCheck tUsed providerConfig resetUsageCount healthCheckModel =
     (if \<not> truthy (config_uuid providerConfig) then pm
      else case findProvider pm (config_uuid providerConfig) of
             None \<Rightarrow> pm
           | Some i \<Rightarrow>
               debouncedSave (pm\<lparr>providerStatus :=
                 (providerStatus pm)[i := healthy_update tCheck tUsed resetUsageCount healthCheckModel
                                            (providerStatus pm ! i)]\<rparr>))"

text \<open>\<^verbatim>\<open>resetProviderCounters(providerConfig)\<close>.\<close>

definition reset_update :: "account \<Rightarrow> account" where
  "reset_update a = a\<lparr>errorCount := 0, usageCount := 0\<rparr>"

definition resetProviderCounters :: "pool_manager \<Rightarrow> account option \<Rightarrow> pool_manager" where
  "resetProviderCounters pm providerConfig =
     (if \<not> truthy (config_uuid providerConfig) then pm
      else case findProvider pm (config_uuid providerConfig) of
             None \<Rightarrow> pm
           | Some i \<Rightarrow>
               debouncedSave (pm\<lparr>providerStatus :=
                 (providerStatus pm)[i := reset_update (providerStatus pm ! i)]\<rparr>))"

text \<open>
  A finite sequence of marking calls aimed at one provider configuration. Each call
  carries its own arguments and clock readings.
\<close>

datatype mark_op =
    MarkUnhealthy int int "string option"
  | MarkHealthy int int bool "string option"
  | ResetCounters

fun apply_mark :: "account option \<Rightarrow> pool_manager \<Rightarrow> mark_op \<Rightarrow> pool_manager" where
  "apply_mark c pm (MarkUnhealthy tErr tUsed msg) = markProviderUnhealthy pm tErr tUsed c msg"
| "apply_mark c pm (MarkHealthy tCheck tUsed reset model) = markProviderHealthy pm tCheck tUsed c reset model"
| "apply_mark c pm ResetCounters = resetProviderCounters pm c"

fun mark_update :: "int \<Rightarrow> mark_op \<Rightarrow> account \<Rightarrow> account" where
  "mark_update mx (MarkUnhealthy tErr tUsed msg) = unhealthy_update mx tErr tUsed msg"
| "mark_update mx (MarkHealthy tCheck tUsed reset model) = healthy_update tCheck tUsed reset model"
| "mark_update mx ResetCounters = reset_update"

definition apply_marks :: "account option \<Rightarrow> pool_manager \<Rightarrow> mark_op list \<Rightarrow> pool_manager" where
  "apply_marks c pm ops = foldl (apply_mark c) pm ops"


fun is_reset_op :: "mark_op \<Rightarrow> bool" where
  "is_reset_op ResetCounters = True"
| "is_reset_op _ = False"

fun is_healthy_op :: "mark_op \<Rightarrow> bool" where
  "is_healthy_op (MarkHealthy _ _ _ _) = True"
| "is_healthy_op _ = False"

text \<open>
  Two readings of the error budget. \<open>reached\<close>: along the calls \<open>ops\<close> applied to
  the account state \<open>a\<close>, the \<^verbatim>\<open>errorCount\<close> was at or above the budget in \<open>a\<close> or after
  one of the calls. \<open>budget_inv\<close>: the account is unhealthy exactly when its
  \<^verbatim>\<open>errorCount\<close> is at or above the budget now.
\<close>

fun reached :: "int \<Rightarrow> account \<Rightarrow> mark_op list \<Rightarrow> bool" where
  "reached maxErr a [] = (errorCount a \<ge> maxErr)"
| "reached maxErr a (op # ops) = (errorCount a \<ge> maxErr \<or> reached maxErr (mark_update maxErr op a) ops)"

definition budget_inv :: "int \<Rightarrow> account \<Rightarrow> bool" where
  "budget_inv maxErr a = (isHealthy a = False \<longleftrightarrow> errorCount a \<ge> maxErr)"

subsection \<open>LRU selection\<close>

text \<open>
  The comparator handed to \<^verbatim>\<open>Array.prototype.sort\<close>: the time of last use
  (\<^verbatim>\<open>null\<close> counts as 0), then the usage count.
\<close>

definition lastUsedTime :: "account \<Rightarrow> int" where
  "lastUsedTime a = (case lastUsed a of None \<Rightarrow> 0 | Some t \<Rightarrow> t)"

definition lru_compare :: "account \<Rightarrow> account \<Rightarrow> int" where
  "lru_compare a b =
     (let timeA = lastUsedTime a; timeB = lastUsedTime b
      in if timeA \<noteq> timeB then timeA - timeB
         else usageCount a - usageCount b)"

text \<open>
  \<^verbatim>\<open>Array.prototype.sort\<close> is stable (ECMAScript 2019); for a consistent comparator
  its result is the stable insertion sort below.
\<close>

fun insert_by :: "('a \<Rightarrow> 'a \<Rightarrow> int) \<Rightarrow> 'a \<Rightarrow> 'a list \<Rightarrow> 'a list" where
  "insert_by cmp x [] = [x]"
| "insert_by cmp x (y # ys) = (if cmp x y \<le> 0 then x # y # ys else y # insert_by cmp x ys)"

definition sort_by :: "('a \<Rightarrow> 'a \<Rightarrow> int) \<Rightarrow> 'a list \<Rightarrow> 'a list" where
  "sort_by cmp xs = foldr (insert_by cmp) xs []"

text \<open>The model filter of \<^verbatim>\<open>selectProvider\<close>.\<close>

definition supportsModel :: "string \<Rightarrow> account \<Rightarrow> bool" where
  "supportsModel m p =
     (case notSupportedModels p of None \<Rightarrow> True | Some ms \<Rightarrow> m \<notin> set ms)"

text \<open>
  \<^verbatim>\<open>selectProvider(requestedModel, options)\<close> at clock reading \<open>now\<close>. The result is the
  returned \<^verbatim>\<open>config\<close> object (its position and its fields after the call), or \<open>None\<close>
  for \<^verbatim>\<open>null\<close>, together with the manager after the call.
\<close>

definition selectProvider ::
  "pool_manager \<Rightarrow> int \<Rightarrow> string option \<Rightarrow> bool \<Rightarrow> (nat \<times> account) option \<times> pool_manager" where
  "selectProvider pm now requestedModel skipUsageCount =
     (let availableProviders = enumerate 0 (providerStatus pm);
          healthy = filter (\<lambda>(i, p). isHealthy p \<and> \<not> isDisabled p) availableProviders;
          modelFiltered = filter (\<lambda>(i, p). supportsModel (the requestedModel) p) healthy
      in if truthy requestedModel \<and> modelFiltered = [] then (None, pm)
         else
           let avail = (if truthy requestedModel then modelFiltered else healthy)
           in case sort_by (\<lambda>a b. lru_compare (snd a) (snd b)) avail of
                [] \<Rightarrow> (None, pm)
              | (i, selected) # _ \<Rightarrow>
                  if \<not> skipUsageCount then
                    let selected' = selected\<lparr>lastUsed := Some now,
                                              usageCount := js_increment (usageCount selected)\<rparr>
                    in (Some (i, selected'),
                        debouncedSave (pm\<lparr>providerStatus := (providerStatus pm)[i := selected']\<rparr>))
                  else (Some (i, selected), pm))"

text \<open>The selection rule in the words of the specification.\<close>

definition qualifies :: "string option \<Rightarrow> account \<Rightarrow> bool" where
  "qualifies requestedModel p =
     (isHealthy p \<and> \<not> isDisabled p \<and>
      (truthy requestedModel \<longrightarrow>
         (case notSupportedModels p of None \<Rightarrow> True
          | Some ms \<Rightarrow> the requestedModel \<notin> set ms)))"

definition lru_le :: "account \<Rightarrow> account \<Rightarrow> bool" where
  "lru_le a b =
     (lastUsedTime a < lastUsedTime b \<or>
      (lastUsedTime a = lastUsedTime b \<and> usageCount a \<le> usageCount b))"


text \<open>
  Fixtures: the state \<^verbatim>\<open>initializeProviderStatus\<close> gives a configuration that carries
  only a uuid, and a pool of one such account with the default budget of 3.
\<close>

definition initial_account :: "string \<Rightarrow> account" where
  "initial_account u =
     \<lparr>uuid = Some u, isHealthy = True, isDisabled = False, lastUsed = None,
      usageCount = 0, errorCount = 0, lastErrorTime = None, lastErrorMessage = None,
      lastHealthCheckTime = None, lastHealthCheckModel = None, notSupportedModels = None\<rparr>"

definition zero_budget_pool :: pool_manager where
  "zero_budget_pool = \<lparr>providerStatus = [initial_account ''a''], maxErrorCount = 0, pendingSave = False\<rparr>"

definition single_pool :: pool_manager where
  "single_pool = \<lparr>providerStatus = [initial_account ''a''], maxErrorCount = 3, pendingSave = False\<rparr>"

text \<open>A pool of one account whose \<^verbatim>\<open>usageCount\<close> in the pool file is \<open>2^53\<close>.\<close>

definition saturated_pool :: pool_manager where
  "saturated_pool =
     \<lparr>providerStatus = [(initial_account ''a'')\<lparr>usageCount := 2 ^ 53\<rparr>],
      maxErrorCount = 3, pendingSave = False\<rparr>"

definition three_pool :: pool_manager where
  "three_pool =
     \<lparr>providerStatus =
        [(initial_account ''a'')\<lparr>notSupportedModels := Some [''m'']\<rparr>,
         (initial_account ''b'')\<lparr>lastUsed := Some 5, usageCount := 1\<rparr>,
         (initial_account ''c'')\<lparr>lastUsed := Some 3, usageCount := 2\<rparr>],
      maxErrorCount = 3, pendingSave = False\<rparr>"


section \<open>JSON values and the built-in JSON functions\<close>

text \<open>
  JavaScript strings are modelled as \<open>string\<close>: sequences of code units below 256.
  A JSON value is what \<^verbatim>\<open>JSON.parse\<close> returns. A number is kept as the decimal it was
  written as, mantissa and exponent (\<open>JNumber m e\<close> is \<open>m * 10 ^ e\<close>); an object is
  the list of its properties in insertion order.
\<close>

datatype json =
    JNull
  | JBool bool
  | JNumber int int
  | JString string
  | JArray "json list"
  | JObject "(string \<times> json) list"

text \<open>JavaScript truthiness of a JSON value, and of a property that may be \<^verbatim>\<open>undefined\<close>.\<close>

fun json_truthy :: "json \<Rightarrow> bool" where
  "json_truthy JNull = False"
| "json_truthy (JBool b) = b"
| "json_truthy (JNumber m e) = (m \<noteq> 0)"
| "json_truthy (JString s) = (s \<noteq> [])"
| "json_truthy (JArray xs) = True"
| "json_truthy (JObject kvs) = True"

definition prop_truthy :: "json option \<Rightarrow> bool" where
  "prop_truthy v = (case v of None \<Rightarrow> False | Some j \<Rightarrow> json_truthy j)"

text \<open>
  Property access \<^verbatim>\<open>parsed.key\<close> on a parsed object; \<open>None\<close> is \<^verbatim>\<open>undefined\<close>. The
  values met here are objects: every parsed text starts with an opening brace.
\<close>

fun get_prop :: "json \<Rightarrow> string \<Rightarrow> json option" where
  "get_prop (JObject kvs) k = map_of kvs k"
| "get_prop _ k = None"

text \<open>Storing a property: a repeated key keeps its first position and takes the later value.\<close>

fun set_prop :: "string \<Rightarrow> json \<Rightarrow> (string \<times> json) list \<Rightarrow> (string \<times> json) list" where
  "set_prop k v [] = [(k, v)]"
| "set_prop k v ((k', v') # kvs) =
     (if k = k' then (k, v) # kvs else (k', v') # set_prop k v kvs)"

subsection \<open>A reference reading of JSON.parse\<close>

text \<open>
  \<open>JSON_parse\<close> follows the JSON grammar (ECMA-404) on texts of code units below
  256; \<open>None\<close> stands for the \<^verbatim>\<open>SyntaxError\<close> the built-in throws. Limits of the
  reference reading: a \<^verbatim>\<open>\u\<close> escape of a code unit from 256 on is not
  representable and is rejected, and property names that are array indices are not
  moved to the front. The theorems below that hold for every buffer do not depend on
  how a text is parsed.
\<close>

definition is_ws :: "char \<Rightarrow> bool" where
  "is_ws c = (c = CHR '' '' \<or> c = CHR 0x09 \<or> c = CHR 0x0A \<or> c = CHR 0x0D)"

definition skip_ws :: "string \<Rightarrow> string" where
  "skip_ws s = dropWhile is_ws s"

definition is_digit :: "char \<Rightarrow> bool" where
  "is_digit c = (c \<in> set ''0123456789'')"

definition digit_val :: "char \<Rightarrow> int" where
  "digit_val c = int (of_char c :: nat) - 48"

definition digits_val :: "string \<Rightarrow> int" where
  "digits_val ds = foldl (\<lambda>acc d. acc * 10 + digit_val d) 0 ds"

definition hex_val :: "char \<Rightarrow> nat option" where
  "hex_val c =
     (if c \<in> set ''0123456789'' then Some (of_char c - 48)
      else if c \<in> set ''abcdef'' then Some (of_char c - 87)
      else if c \<in> set ''ABCDEF'' then Some (of_char c - 55)
      else None)"

definition hex4 :: "char \<Rightarrow> char \<Rightarrow> char \<Rightarrow> char \<Rightarrow> nat option" where
  "hex4 a b c d =
     (case (hex_val a, hex_val b, hex_val c, hex_val d) of
        (Some w, Some x, Some y, Some z) \<Rightarrow> Some (((w * 16 + x) * 16 + y) * 16 + z)
      | _ \<Rightarrow> None)"

definition escape_char :: "char \<Rightarrow> char option" where
  "escape_char e =
     (if e = CHR 0x22 then Some (CHR 0x22)
      else if e = CHR 0x5C then Some (CHR 0x5C)
      else if e = CHR ''/'' then Some (CHR ''/'')
      else if e = CHR ''b'' then Some (CHR 0x08)
      else if e = CHR ''f'' then Some (CHR 0x0C)
      else if e = CHR ''n'' then Some (CHR 0x0A)
      else if e = CHR ''r'' then Some (CHR 0x0D)
      else if e = CHR ''t'' then Some (CHR 0x09)
      else None)"

text \<open>The characters of a string literal after its opening quote, and the text after its closing quote.\<close>

fun parse_string :: "string \<Rightarrow> (string \<times> string) option" where
  "parse_string [] = None"
| "parse_string [c] = (if c = CHR 0x22 then Some ([], []) else None)"
| "parse_string (c # e # cs) =
     (if c = CHR 0x22 then Some ([], e # cs)
      else if c = CHR 0x5C then
        (if e = CHR ''u'' then
           (case cs of
              h1 # h2 # h3 # h4 # rest \<Rightarrow>
                (case hex4 h1 h2 h3 h4 of
                   None \<Rightarrow> None
                 | Some n \<Rightarrow>
                     if n < 256 then
                       (case parse_string rest of
                          None \<Rightarrow> None
                        | Some (s, r) \<Rightarrow> Some (char_of n # s, r))
                     else None)
            | _ \<Rightarrow> None)
         else
           (case escape_char e of
              None \<Rightarrow> None
            | Some x \<Rightarrow>
                (case parse_string cs of
                   None \<Rightarrow> None
                 | Some (s, r) \<Rightarrow> Some (x # s, r))))
      else if (of_char c :: nat) < 32 then None
      else (case parse_string (e # cs) of
              None \<Rightarrow> None
            | Some (s, r) \<Rightarrow> Some (c # s, r)))"

text \<open>A number literal: sign, integer part without a leading zero, fraction, exponent.\<close>

definition parse_number :: "string \<Rightarrow> (json \<times> string) option" where
  "parse_number s =
     (let neg = (s \<noteq> [] \<and> hd s = CHR ''-'');
          s1 = (if neg then tl s else s);
          ip = takeWhile is_digit s1;
          s2 = dropWhile is_digit s1
      in if ip = [] \<or> (length ip > 1 \<and> hd ip = CHR ''0'') then None
         else
           let has_frac = (s2 \<noteq> [] \<and> hd s2 = CHR ''.'');
               fp = (if has_frac then takeWhile is_digit (tl s2) else []);
               s3 = (if has_frac then dropWhile is_digit (tl s2) else s2)
           in if has_frac \<and> fp = [] then None
              else
                let has_exp = (s3 \<noteq> [] \<and> (hd s3 = CHR ''e'' \<or> hd s3 = CHR ''E''));
                    s4 = (if has_exp then tl s3 else s3);
                    eneg = (has_exp \<and> s4 \<noteq> [] \<and> hd s4 = CHR ''-'');
                    s5 = (if has_exp \<and> s4 \<noteq> [] \<and> (hd s4 = CHR ''-'' \<or> hd s4 = CHR ''+'')
                          then tl s4 else s4);
                    ep = (if has_exp then takeWhile is_digit s5 else []);
                    s6 = (if has_exp then dropWhile is_digit s5 else s3)
                in if has_exp \<and> ep = [] then None
                   else
                     let m = digits_val (ip @ fp);
                         e = (if eneg then - digits_val ep else digits_val ep) - int (length fp)
                     in Some (JNumber (if neg then - m else m) e, s6))"

text \<open>
  Values, array elements and object members. The first argument bounds the recursion;
  \<open>JSON_parse\<close> starts it with more steps than the text can use.
\<close>

fun parse_value :: "'a list \<Rightarrow> string \<Rightarrow> (json \<times> string) option"
  and parse_elements :: "'a list \<Rightarrow> string \<Rightarrow> (json list \<times> string) option"
  and parse_members :: "'a list \<Rightarrow> string \<Rightarrow> (string \<times> json) list \<Rightarrow> ((string \<times> json) list \<times> string) option"
where
  "parse_value [] s = None"
| "parse_value (f # fuel) s =
     (case skip_ws s of
        [] \<Rightarrow> None
      | c # cs \<Rightarrow>
          if c = CHR ''{'' then
            (case skip_ws cs of
               [] \<Rightarrow> None
             | d # ds \<Rightarrow>
                 if d = CHR ''}'' then Some (JObject [], ds)
                 else (case parse_members fuel cs [] of
                         None \<Rightarrow> None
                       | Some (kvs, r) \<Rightarrow> Some (JObject kvs, r)))
          else if c = CHR ''['' then
            (case skip_ws cs of
               [] \<Rightarrow> None
             | d # ds \<Rightarrow>
                 if d = CHR '']'' then Some (JArray [], ds)
                 else (case parse_elements fuel cs of
                         None \<Rightarrow> None
                       | Some (vs, r) \<Rightarrow> Some (JArray vs, r)))
          else if c = CHR 0x22 then
            (case parse_string cs of
               None \<Rightarrow> None
             | Some (str, r) \<Rightarrow> Some (JString str, r))
          else if take 4 (c # cs) = ''true'' then Some (JBool True, drop 4 (c # cs))
          else if take 5 (c # cs) = ''false'' then Some (JBool False, drop 5 (c # cs))
          else if take 4 (c # cs) = ''null'' then Some (JNull, drop 4 (c # cs))
          else parse_number (c # cs))"
| "parse_elements [] s = None"
| "parse_elements (f # fuel) s =
     (case parse_value fuel s of
        None \<Rightarrow> None
      | Some (v, r) \<Rightarrow>
          (case skip_ws r of
             [] \<Rightarrow> None
           | c # cs \<Rightarrow>
               if c = CHR '','' then
                 (case parse_elements fuel cs of
                    None \<Rightarrow> None
                  | Some (vs, r') \<Rightarrow> Some (v # vs, r'))
               else if c = CHR '']'' then Some ([v], cs)
               else None))"
| "parse_members [] s acc = None"
| "parse_members (f # fuel) s acc =
     (case skip_ws s of
        [] \<Rightarrow> None
      | q # qs \<Rightarrow>
          if q \<noteq> CHR 0x22 then None
          else
            (case parse_string qs of
               None \<Rightarrow> None
             | Some (k, r) \<Rightarrow>
                 (case skip_ws r of
                    [] \<Rightarrow> None
                  | c # cs \<Rightarrow>
                      if c \<noteq> CHR '':'' then None
                      else
                        (case parse_value fuel cs of
                           None \<Rightarrow> None
                         | Some (v, r') \<Rightarrow>
                             (case skip_ws r' of
                                [] \<Rightarrow> None
                              | d # ds \<Rightarrow>
                                  if d = CHR '','' then parse_members fuel ds (set_prop k v acc)
                                  else if d = CHR ''}'' then Some (set_prop k v acc, ds)
                                  else None)))))"

definition JSON_parse :: "string \<Rightarrow> json option" where
  "JSON_parse s =
     (case parse_value (s @ s @ ''  '') s of
        None \<Rightarrow> None
      | Some (v, r) \<Rightarrow> if skip_ws r = [] then Some v else None)"

subsection \<open>A reference reading of JSON.stringify\<close>

text \<open>
  Compact output, as \<^verbatim>\<open>JSON.stringify(value)\<close> gives it. Limits of the reference
  reading: a number is printed in plain decimal notation from its mantissa and exponent
  (the built-in prints the shortest form of the double), and among the control
  characters only those with a short escape are escaped.
\<close>

definition char_digit :: "nat \<Rightarrow> char" where
  "char_digit d = char_of (48 + d)"

fun nat_digits :: "'a list \<Rightarrow> nat \<Rightarrow> string" where
  "nat_digits [] n = [char_digit (n mod 10)]"
| "nat_digits (f # fuel) n =
     (if n < 10 then [char_digit n] else nat_digits fuel (n div 10) @ [char_digit (n mod 10)])"

definition show_nat :: "nat \<Rightarrow> string" where
  "show_nat n = nat_digits (replicate n ()) n"

definition show_number :: "int \<Rightarrow> int \<Rightarrow> string" where
  "show_number m e =
     (let sign = (if m < 0 then ''-'' else []);
          ds = show_nat (nat (abs m))
      in if m = 0 then ''0''
         else if e \<ge> 0 then sign @ ds @ replicate (nat e) (CHR ''0'')
         else
           let k = nat (- e);
               padded = replicate (Suc k - length ds) (CHR ''0'') @ ds
           in sign @ take (length padded - k) padded @ ''.'' @ drop (length padded - k) padded)"

fun quote_chars :: "string \<Rightarrow> string" where
  "quote_chars [] = []"
| "quote_chars (c # cs) =
     (if c = CHR 0x22 then [CHR 0x5C, CHR 0x22]
      else if c = CHR 0x5C then [CHR 0x5C, CHR 0x5C]
      else if c = CHR 0x08 then [CHR 0x5C, CHR ''b'']
      else if c = CHR 0x0C then [CHR 0x5C, CHR ''f'']
      else if c = CHR 0x0A then [CHR 0x5C, CHR ''n'']
      else if c = CHR 0x0D then [CHR 0x5C, CHR ''r'']
      else if c = CHR 0x09 then [CHR 0x5C, CHR ''t'']
      else [c]) @ quote_chars cs"

definition quote_string :: "string \<Rightarrow> string" where
  "quote_string s = [CHR 0x22] @ quote_chars s @ [CHR 0x22]"

fun join_with :: "string \<Rightarrow> string list \<Rightarrow> string" where
  "join_with sep [] = []"
| "join_with sep [x] = x"
| "join_with sep (x # y # ys) = x @ sep @ join_with sep (y # ys)"

fun JSON_stringify :: "json \<Rightarrow> string" where
  "JSON_stringify JNull = ''null''"
| "JSON_stringify (JBool b) = (if b then ''true'' else ''false'')"
| "JSON_stringify (JNumber m e) = show_number m e"
| "JSON_stringify (JString s) = quote_string s"
| "JSON_stringify (JArray xs) = ''['' @ join_with '','' (map JSON_stringify xs) @ '']''"
| "JSON_stringify (JObject kvs) =
     ''{'' @ join_with '','' (map (\<lambda>kv. quote_string (fst kv) @ '':'' @ JSON_stringify (snd kv)) kvs) @ ''}''"


section \<open>Token refresh (kiro/auth.js, class KiroAuthManager)\<close>

text \<open>
  A credentials object, as read from a credentials file or decoded from the Base64
  blob. A key that is absent is \<open>None\<close>; the keys hold strings, and \<^verbatim>\<open>expiresAt\<close>
  holds the instant (milliseconds since the epoch) that its ISO string denotes.
\<close>

record credentials =
  cred_accessToken :: "string option"
  cred_refreshToken :: "string option"
  cred_clientId :: "string option"
  cred_clientSecret :: "string option"
  cred_authMethod :: "string option"
  cred_expiresAt :: "int option"
  cred_profileArn :: "string option"
  cred_region :: "string option"

definition empty_credentials :: credentials where
  "empty_credentials =
     \<lparr>cred_accessToken = None, cred_refreshToken = None, cred_clientId = None,
      cred_clientSecret = None, cred_authMethod = None, cred_expiresAt = None,
      cred_profileArn = None, cred_region = None\<rparr>"

text \<open>\<^verbatim>\<open>Object.assign(target, source)\<close>: every key the source has overwrites the target's.\<close>

definition over :: "'a option \<Rightarrow> 'a option \<Rightarrow> 'a option" where
  "over target source = (case source of None \<Rightarrow> target | Some v \<Rightarrow> Some v)"

definition assign_credentials :: "credentials \<Rightarrow> credentials \<Rightarrow> credentials" where
  "assign_credentials target source =
     \<lparr>cred_accessToken = over (cred_accessToken target) (cred_accessToken source),
      cred_refreshToken = over (cred_refreshToken target) (cred_refreshToken source),
      cred_clientId = over (cred_clientId target) (cred_clientId source),
      cred_clientSecret = over (cred_clientSecret target) (cred_clientSecret source),
      cred_authMethod = over (cred_authMethod target) (cred_authMethod source),
      cred_expiresAt = over (cred_expiresAt target) (cred_expiresAt source),
      cred_profileArn = over (cred_profileArn target) (cred_profileArn source),
      cred_region = over (cred_region target) (cred_region source)\<rparr>"

text \<open>
  The manager's fields. \<^verbatim>\<open>config\<close> is reduced to its three URL overrides; the
  credential directory and file names only select what the file system hands back and
  are part of the environment below.
\<close>

record auth_manager =
  cfg_KIRO_REFRESH_URL :: "string option"
  cfg_KIRO_REFRESH_IDC_URL :: "string option"
  cfg_KIRO_BASE_URL :: "string option"
  accessToken :: "string option"
  refreshToken :: "string option"
  clientId :: "string option"
  clientSecret :: "string option"
  authMethod :: "string option"
  expiresAt :: "int option"
  profileArn :: "string option"
  region :: "string option"
  refreshUrl :: "string option"
  refreshIDCUrl :: "string option"
  baseUrl :: "string option"
  amazonQUrl :: "string option"
  base64Creds :: "credentials option"

text \<open>
  The environment of one \<^verbatim>\<open>initializeAuth\<close> call: what
  \<^verbatim>\<open>loadCredentialsFromFile\<close> returns for the target file (\<open>None\<close> for \<^verbatim>\<open>null\<close>), the
  credentials loaded from the other \<^verbatim>\<open>.json\<close> files of the directory in
  \<^verbatim>\<open>readdir\<close> order (\<open>None\<close> when \<^verbatim>\<open>readdir\<close> throws), the clock, and the HTTP client.
\<close>

record refresh_request =
  req_refreshToken :: "string option"
  req_clientId :: "string option"
  req_clientSecret :: "string option"
  req_grantType :: "string option"

text \<open>
  The body of a 2xx refresh response. \<^verbatim>\<open>expiresIn\<close> is a whole number of seconds, or
  \<open>None\<close> when the field is absent.
\<close>

record refresh_data =
  data_accessToken :: "string option"
  data_refreshToken :: "string option"
  data_profileArn :: "string option"
  data_expiresIn :: "int option"

text \<open>
  \<^verbatim>\<open>axiosInstance.post\<close> either throws (a response outside 2xx, a network failure)
  with a message, or returns a response whose \<^verbatim>\<open>data\<close> may be missing.
\<close>

datatype http_result = HttpThrows string | HttpOk "refresh_data option"

record auth_env =
  env_targetFile :: "credentials option"
  env_otherFiles :: "credentials list option"
  env_now :: int
  env_axios :: "(string option \<Rightarrow> refresh_request \<Rightarrow> http_result) option"

text \<open>What \<^verbatim>\<open>saveCredentialsToFile\<close> is asked to merge into the token file.\<close>

record token_data =
  tok_accessToken :: "string option"
  tok_refreshToken :: "string option"
  tok_expiresAt :: int
  tok_profileArn :: "string option"

text \<open>
  The outcome of a call: the message of the \<^verbatim>\<open>Error\<close> thrown (\<open>None\<close> when the call
  returns), the manager's fields when the call ends, and the token data written.
\<close>

record auth_outcome =
  thrown :: "string option"
  manager :: auth_manager
  written :: "token_data option"

text \<open>\<^verbatim>\<open>a || b\<close> on values that are strings (or instants, which are never falsy) or missing.\<close>

definition or_else :: "string option \<Rightarrow> string option \<Rightarrow> string option" where
  "or_else a b = (if truthy a then a else b)"

definition or_else_instant :: "int option \<Rightarrow> int option \<Rightarrow> int option" where
  "or_else_instant a b = (case a of None \<Rightarrow> b | Some t \<Rightarrow> Some t)"

text \<open>
  \<^verbatim>\<open>template.replace("{{region}}", region)\<close>: the first occurrence is replaced (the
  region is taken to hold no \<^verbatim>\<open>$\<close> replacement pattern).
\<close>

fun replace_first :: "string \<Rightarrow> string \<Rightarrow> string \<Rightarrow> string" where
  "replace_first pat rep [] = (if pat = [] then rep else [])"
| "replace_first pat rep (c # cs) =
     (if take (length pat) (c # cs) = pat then rep @ drop (length pat) (c # cs)
      else c # replace_first pat rep cs)"

definition REFRESH_URL :: string where
  "REFRESH_URL = ''https://prod.{{region}}.auth.desktop.kiro.dev/refreshToken''"

definition REFRESH_IDC_URL :: string where
  "REFRESH_IDC_URL = ''https://oidc.{{region}}.amazonaws.com/token''"

definition BASE_URL :: string where
  "BASE_URL = ''https://codewhisperer.{{region}}.amazonaws.com/generateAssistantResponse''"

definition AMAZON_Q_URL :: string where
  "AMAZON_Q_URL = ''https://codewhisperer.{{region}}.amazonaws.com/SendMessageStreaming''"

definition AUTH_METHOD_SOCIAL :: string where
  "AUTH_METHOD_SOCIAL = ''social''"

definition url_for :: "string option \<Rightarrow> string \<Rightarrow> string \<Rightarrow> string option" where
  "url_for override template reg =
     Some (replace_first ''{{region}}'' reg (if truthy override then the override else template))"

text \<open>The credential loading block: Base64 first, then the target file, then the other files.\<close>

definition merge_other :: "credentials \<Rightarrow> credentials \<Rightarrow> credentials" where
  "merge_other merged c = assign_credentials merged (c\<lparr>cred_expiresAt := cred_expiresAt merged\<rparr>)"

definition load_credentials :: "auth_manager \<Rightarrow> auth_env \<Rightarrow> credentials" where
  "load_credentials m env =
     (let m1 = (case base64Creds m of None \<Rightarrow> empty_credentials
                | Some b \<Rightarrow> assign_credentials empty_credentials b);
          m2 = (case env_targetFile env of None \<Rightarrow> m1 | Some t \<Rightarrow> assign_credentials m1 t)
      in case env_otherFiles env of None \<Rightarrow> m2 | Some cs \<Rightarrow> foldl merge_other m2 cs)"

definition apply_credentials :: "auth_manager \<Rightarrow> credentials \<Rightarrow> auth_manager" where
  "apply_credentials m c =
     (let reg = or_else (region m) (cred_region c);
          reg' = (if truthy reg then the reg else ''us-east-1'')
      in m\<lparr>base64Creds := None,
            accessToken := or_else (accessToken m) (cred_accessToken c),
            refreshToken := or_else (refreshToken m) (cred_refreshToken c),
            clientId := or_else (clientId m) (cred_clientId c),
            clientSecret := or_else (clientSecret m) (cred_clientSecret c),
            authMethod := or_else (authMethod m) (cred_authMethod c),
            expiresAt := or_else_instant (expiresAt m) (cred_expiresAt c),
            profileArn := or_else (profileArn m) (cred_profileArn c),
            region := Some reg',
            refreshUrl := url_for (cfg_KIRO_REFRESH_URL m) REFRESH_URL reg',
            refreshIDCUrl := url_for (cfg_KIRO_REFRESH_IDC_URL m) REFRESH_IDC_URL reg',
            baseUrl := url_for (cfg_KIRO_BASE_URL m) BASE_URL reg',
            amazonQUrl := Some (replace_first ''{{region}}'' reg' AMAZON_Q_URL)\<rparr>)"

text \<open>
  \<^verbatim>\<open>new Date(Date.now() + expiresIn * 1000).toISOString()\<close>. A missing \<^verbatim>\<open>expiresIn\<close>
  makes the sum \<^verbatim>\<open>NaN\<close>; \<^verbatim>\<open>toISOString\<close> of an invalid date (\<^verbatim>\<open>NaN\<close>, or a time
  value beyond 8.64e15 ms either way) throws \<^verbatim>\<open>RangeError: Invalid time value\<close>.
\<close>

definition new_expiry :: "int \<Rightarrow> int option \<Rightarrow> string + int" where
  "new_expiry now expiresIn =
     (case expiresIn of
        None \<Rightarrow> Inl ''Invalid time value''
      | Some secs \<Rightarrow>
          if abs (now + secs * 1000) \<le> 8640000000000000 then Inr (now + secs * 1000)
          else Inl ''Invalid time value'')"

text \<open>The refresh block, entered with the fields as the loading block left them.\<close>

definition refresh_tokens ::
  "auth_manager \<Rightarrow> int \<Rightarrow> (string option \<Rightarrow> refresh_request \<Rightarrow> http_result) \<Rightarrow> auth_outcome" where
  "refresh_tokens m now post =
     (let social = (authMethod m = Some AUTH_METHOD_SOCIAL);
          url = (if social then refreshUrl m else refreshIDCUrl m);
          body = (if social
                  then \<lparr>req_refreshToken = refreshToken m, req_clientId = None,
                        req_clientSecret = None, req_grantType = None\<rparr>
                  else \<lparr>req_refreshToken = refreshToken m, req_clientId = clientId m,
                        req_clientSecret = clientSecret m, req_grantType = Some ''refresh_token''\<rparr>)
      in case post url body of
           HttpThrows msg \<Rightarrow>
             \<lparr>thrown = Some (''Token refresh failed: '' @ msg), manager = m, written = None\<rparr>
         | HttpOk None \<Rightarrow>
             \<lparr>thrown = Some ''Token refresh failed: Invalid refresh response: Missing accessToken'',
              manager = m, written = None\<rparr>
         | HttpOk (Some d) \<Rightarrow>
             if \<not> truthy (data_accessToken d) then
               \<lparr>thrown = Some ''Token refresh failed: Invalid refresh response: Missing accessToken'',
                manager = m, written = None\<rparr>
             else
               let m1 = m\<lparr>accessToken := data_accessToken d,
                          refreshToken := data_refreshToken d,
                          profileArn := data_profileArn d\<rparr>
               in case new_expiry now (data_expiresIn d) of
                    Inl msg \<Rightarrow>
                      \<lparr>thrown = Some (''Token refresh failed: '' @ msg), manager = m1, written = None\<rparr>
                  | Inr t \<Rightarrow>
                      \<lparr>thrown = None,
                       manager = m1\<lparr>expiresAt := Some t\<rparr>,
                       written = Some \<lparr>tok_accessToken = accessToken m1,
                                       tok_refreshToken = refreshToken m1,
                                       tok_expiresAt = t,
                                       tok_profileArn =
                                         (if truthy (profileArn m1) then profileArn m1 else None)\<rparr>\<rparr>)"

text \<open>\<^verbatim>\<open>initializeAuth(forceRefresh, axiosInstance)\<close>.\<close>

definition initializeAuth :: "auth_manager \<Rightarrow> bool \<Rightarrow> auth_env \<Rightarrow> auth_outcome" where
  "initializeAuth m forceRefresh env =
     (if truthy (accessToken m) \<and> \<not> forceRefresh then
        \<lparr>thrown = None, manager = m, written = None\<rparr>
      else
        let m1 = apply_credentials m (load_credentials m env) in
        if forceRefresh \<or> (\<not> truthy (accessToken m1) \<and> truthy (refreshToken m1)) then
          if \<not> truthy (refreshToken m1) then
            \<lparr>thrown = Some ''No refresh token available to refresh access token.'',
             manager = m1, written = None\<rparr>
          else case env_axios env of
            None \<Rightarrow>
              \<lparr>thrown = Some ''Axios instance is required for token refresh.'',
               manager = m1, written = None\<rparr>
          | Some post \<Rightarrow>
              let out = refresh_tokens m1 (env_now env) post in
              if thrown out = None \<and> \<not> truthy (accessToken (manager out)) then
                out\<lparr>thrown := Some ''No access token available after initialization and refresh attempts.''\<rparr>
              else out
        else if \<not> truthy (accessToken m1) then
          \<lparr>thrown = Some ''No access token available after initialization and refresh attempts.'',
           manager = m1, written = None\<rparr>
        else \<lparr>thrown = None, manager = m1, written = None\<rparr>)"

text \<open>
  Fixtures: a manager holding a token pair that expires at instant 1000, and an
  environment whose HTTP client answers 2xx with a new token pair and no \<^verbatim>\<open>expiresIn\<close>.
\<close>

definition manager_with_tokens :: auth_manager where
  "manager_with_tokens =
     \<lparr>cfg_KIRO_REFRESH_URL = None, cfg_KIRO_REFRESH_IDC_URL = None, cfg_KIRO_BASE_URL = None,
      accessToken = Some ''A1'', refreshToken = Some ''R1'', clientId = None,
      clientSecret = None, authMethod = Some ''social'', expiresAt = Some 1000,
      profileArn = None, region = Some ''us-east-1'', refreshUrl = None, refreshIDCUrl = None,
      baseUrl = None, amazonQUrl = None, base64Creds = None\<rparr>"

definition response_without_expiresIn :: refresh_data where
  "response_without_expiresIn =
     \<lparr>data_accessToken = Some ''A2'', data_refreshToken = Some ''R2'',
      data_profileArn = Some ''arn'', data_expiresIn = None\<rparr>"

definition env_without_expiresIn :: auth_env where
  "env_without_expiresIn =
     \<lparr>env_targetFile = None, env_otherFiles = Some [], env_now = 5000,
      env_axios = Some (\<lambda>url body. HttpOk (Some response_without_expiresIn))\<rparr>"


section \<open>Stream parser (claude/kiro-stream-parser.js)\<close>

text \<open>
  \<^verbatim>\<open>String.prototype.indexOf(pattern, from)\<close>: the first position at or after \<open>from\<close>
  where the pattern starts; \<open>None\<close> stands for \<^verbatim>\<open>-1\<close>.
\<close>

fun index_of :: "string \<Rightarrow> string \<Rightarrow> nat option" where
  "index_of pat [] = (if pat = [] then Some 0 else None)"
| "index_of pat (c # cs) =
     (if take (length pat) (c # cs) = pat then Some 0
      else map_option Suc (index_of pat cs))"

definition indexOf :: "string \<Rightarrow> string \<Rightarrow> nat \<Rightarrow> nat option" where
  "indexOf s pat from = map_option (\<lambda>i. from + i) (index_of pat (drop from s))"

text \<open>\<^verbatim>\<open>s.substring(a, b)\<close> for \<open>a \<le> b\<close>, and \<^verbatim>\<open>s.substring(a)\<close>.\<close>

definition substring :: "string \<Rightarrow> nat \<Rightarrow> nat \<Rightarrow> string" where
  "substring s a b = take (b - a) (drop a s)"

definition substring_from :: "string \<Rightarrow> nat \<Rightarrow> string" where
  "substring_from s a = drop a s"

text \<open>The events the parser emits.\<close>

datatype stream_event =
    ContentEvent json
  | ToolUseEvent json json json json
  | ToolUseInputEvent json
  | ToolUseStopEvent json

text \<open>
  The \<^verbatim>\<open>if\<close> / \<^verbatim>\<open>else if\<close> chain applied to a parsed payload. The four fields of a
  \<^verbatim>\<open>toolUse\<close> event are \<^verbatim>\<open>name\<close>, \<^verbatim>\<open>toolUseId\<close>, \<^verbatim>\<open>input || ''\<close> and
  \<^verbatim>\<open>stop || false\<close>.
\<close>

definition or_default :: "json option \<Rightarrow> json \<Rightarrow> json" where
  "or_default v d = (case v of None \<Rightarrow> d | Some j \<Rightarrow> if json_truthy j then j else d)"

definition classify :: "json \<Rightarrow> stream_event option" where
  "classify parsed =
     (if get_prop parsed ''content'' \<noteq> None \<and> \<not> prop_truthy (get_prop parsed ''followupPrompt'')
      then Some (ContentEvent (the (get_prop parsed ''content'')))
      else if prop_truthy (get_prop parsed ''name'') \<and> prop_truthy (get_prop parsed ''toolUseId'')
      then Some (ToolUseEvent (the (get_prop parsed ''name''))
                              (the (get_prop parsed ''toolUseId''))
                              (or_default (get_prop parsed ''input'') (JString []))
                              (or_default (get_prop parsed ''stop'') (JBool False)))
      else if get_prop parsed ''input'' \<noteq> None \<and> \<not> prop_truthy (get_prop parsed ''name'')
      then Some (ToolUseInputEvent (the (get_prop parsed ''input'')))
      else if get_prop parsed ''stop'' \<noteq> None
      then Some (ToolUseStopEvent (the (get_prop parsed ''stop'')))
      else None)"

text \<open>
  The body of the \<^verbatim>\<open>try\<close> block for one extracted span: the events pushed for
  \<^verbatim>\<open>jsonStr\<close>. A \<^verbatim>\<open>SyntaxError\<close> of \<^verbatim>\<open>JSON.parse\<close> is caught and pushes nothing.
\<close>

definition events_of_span :: "string \<Rightarrow> stream_event list" where
  "events_of_span jsonStr =
     (case JSON_parse jsonStr of
        None \<Rightarrow> []
      | Some parsed \<Rightarrow> (case classify parsed of None \<Rightarrow> [] | Some e \<Rightarrow> [e]))"

text \<open>
  The brace-counting \<^verbatim>\<open>for\<close> loop, run over the characters from position \<open>i\<close> on:
  the position of the closing brace, or \<open>None\<close> when the buffer ends first.
\<close>

fun find_json_end :: "string \<Rightarrow> nat \<Rightarrow> int \<Rightarrow> bool \<Rightarrow> bool \<Rightarrow> nat option" where
  "find_json_end [] i braceCount inString escapeNext = None"
| "find_json_end (c # cs) i braceCount inString escapeNext =
     (if escapeNext then find_json_end cs (i + 1) braceCount inString False
      else if c = CHR 0x5C then find_json_end cs (i + 1) braceCount inString True
      else if c = CHR 0x22 then find_json_end cs (i + 1) braceCount (\<not> inString) False
      else if \<not> inString then
        (if c = CHR ''{'' then find_json_end cs (i + 1) (braceCount + 1) inString False
         else if c = CHR ''}'' then
           (if braceCount - 1 = 0 then Some i
            else find_json_end cs (i + 1) (braceCount - 1) inString False)
         else find_json_end cs (i + 1) braceCount inString False)
      else find_json_end cs (i + 1) braceCount inString False)"

text \<open>The earliest of the five payload signatures at or after \<open>searchStart\<close>.\<close>

definition signatures :: "string list" where
  \<open>signatures = [''{"content":'', ''{"name":'', ''{"followupPrompt":'', ''{"input":'', ''{"stop":'']\<close>

definition min_list_opt :: "nat list \<Rightarrow> nat option" where
  "min_list_opt xs = (case xs of [] \<Rightarrow> None | y # ys \<Rightarrow> Some (foldl min y ys))"

definition find_json_start :: "string \<Rightarrow> nat \<Rightarrow> nat option" where
  "find_json_start remaining searchStart =
     min_list_opt (List.map_filter (\<lambda>sig. indexOf remaining sig searchStart) signatures)"


text \<open>Bounds on the positions found, used for the termination of the parser's loop.\<close>

lemma index_of_bound: "index_of pat s = Some i \<Longrightarrow> i \<le> length s"
  by (induction s arbitrary: i) (auto split: if_splits)

lemma indexOf_from: "indexOf s pat from = Some k \<Longrightarrow> from \<le> k"
  by (auto simp: indexOf_def)

lemma foldl_min_lower: "\<forall>x\<in>set (y # ys). (n::nat) \<le> x \<Longrightarrow> n \<le> foldl min y ys"
  by (induction ys arbitrary: y) auto

lemma find_json_start_from: "find_json_start remaining searchStart = Some jsonStart \<Longrightarrow> searchStart \<le> jsonStart"
proof -
  assume a: "find_json_start remaining searchStart = Some jsonStart"
  let ?c = "List.map_filter (\<lambda>sig. indexOf remaining sig searchStart) signatures"
  have all: "\<forall>x\<in>set ?c. searchStart \<le> x"
    by (auto simp: map_filter_def dest: indexOf_from)
  from a obtain y ys where c: "?c = y # ys" and j: "jsonStart = foldl min y ys"
    by (auto simp: find_json_start_def min_list_opt_def split: list.splits)
  from all c have "\<forall>x\<in>set (y # ys). searchStart \<le> x" by simp
  from foldl_min_lower [OF this] j show ?thesis by simp
qed

lemma find_json_end_bound:
  "find_json_end cs i b s e = Some j \<Longrightarrow> i \<le> j \<and> j < i + length cs"
  by (induction cs i b s e arbitrary: j rule: find_json_end.induct) (auto split: if_splits)

text \<open>
  The \<^verbatim>\<open>while (true)\<close> loop of \<^verbatim>\<open>parseAwsEventStreamBuffer\<close>, as a function of its
  three variables; the result is their value when the loop is left.
\<close>

function parse_loop :: "string \<Rightarrow> nat \<Rightarrow> stream_event list \<Rightarrow> stream_event list \<times> string \<times> nat" where
  "parse_loop remaining searchStart events =
     (case find_json_start remaining searchStart of
        None \<Rightarrow> (events, remaining, searchStart)
      | Some jsonStart \<Rightarrow>
          (case find_json_end (drop jsonStart remaining) jsonStart 0 False False of
             None \<Rightarrow> (events, substring_from remaining jsonStart, searchStart)
           | Some jsonEnd \<Rightarrow>
               if jsonEnd + 1 \<ge> length remaining
               then (events @ events_of_span (substring remaining jsonStart (jsonEnd + 1)),
                     [], jsonEnd + 1)
               else parse_loop remaining (jsonEnd + 1)
                      (events @ events_of_span (substring remaining jsonStart (jsonEnd + 1)))))"
  by pat_completeness auto
termination
proof (relation "measure (\<lambda>(remaining, searchStart, events). length remaining - searchStart)")
  show "wf (measure (\<lambda>(remaining, searchStart, events). length remaining - searchStart))"
    by simp
next
  fix remaining :: string and searchStart :: nat and events :: "stream_event list"
    and jsonStart jsonEnd :: nat
  assume s: "find_json_start remaining searchStart = Some jsonStart"
    and e: "find_json_end (drop jsonStart remaining) jsonStart 0 False False = Some jsonEnd"
    and n: "\<not> length remaining \<le> jsonEnd + 1"
  from find_json_start_from [OF s] find_json_end_bound [OF e] n
  show "((remaining, jsonEnd + 1, events @ events_of_span (substring remaining jsonStart (jsonEnd + 1))),
         (remaining, searchStart, events))
        \<in> measure (\<lambda>(remaining, searchStart, events). length remaining - searchStart)"
    by simp arith
qed

declare parse_loop.simps [simp del]

text \<open>\<^verbatim>\<open>parseAwsEventStreamBuffer(buffer)\<close>: the events and the retained buffer.\<close>

definition parseAwsEventStreamBuffer :: "string \<Rightarrow> stream_event list \<times> string" where
  "parseAwsEventStreamBuffer buffer =
     (case parse_loop buffer 0 [] of
        (events, remaining, searchStart) \<Rightarrow>
          (events,
           if searchStart > 0 \<and> remaining \<noteq> [] then substring_from remaining searchStart
           else remaining))"

text \<open>
  The spans the loop extracts and hands to \<^verbatim>\<open>JSON.parse\<close>, in order: the same loop,
  collecting \<^verbatim>\<open>jsonStr\<close> instead of events.
\<close>

function extracted_spans :: "string \<Rightarrow> nat \<Rightarrow> string list" where
  "extracted_spans remaining searchStart =
     (case find_json_start remaining searchStart of
        None \<Rightarrow> []
      | Some jsonStart \<Rightarrow>
          (case find_json_end (drop jsonStart remaining) jsonStart 0 False False of
             None \<Rightarrow> []
           | Some jsonEnd \<Rightarrow>
               if jsonEnd + 1 \<ge> length remaining
               then [substring remaining jsonStart (jsonEnd + 1)]
               else substring remaining jsonStart (jsonEnd + 1)
                      # extracted_spans remaining (jsonEnd + 1)))"
  by pat_completeness auto
termination
proof (relation "measure (\<lambda>(remaining, searchStart). length remaining - searchStart)")
  show "wf (measure (\<lambda>(remaining, searchStart). length remaining - searchStart))"
    by simp
next
  fix remaining :: string and searchStart jsonStart jsonEnd :: nat
  assume s: "find_json_start remaining searchStart = Some jsonStart"
    and e: "find_json_end (drop jsonStart remaining) jsonStart 0 False False = Some jsonEnd"
    and n: "\<not> length remaining \<le> jsonEnd + 1"
  from find_json_start_from [OF s] find_json_end_bound [OF e] n
  show "((remaining, jsonEnd + 1), (remaining, searchStart))
        \<in> measure (\<lambda>(remaining, searchStart). length remaining - searchStart)"
    by simp arith
qed

declare extracted_spans.simps [simp del]


section \<open>Bracket tool-call recovery (claude/kiro-tool-parser.js)\<close>

subsection \<open>Regular expressions\<close>

text \<open>
  The four regular expressions of the module use literal characters, the classes
  \<^verbatim>\<open>\s\<close>, \<^verbatim>\<open>\w\<close> and bracketed sets, the quantifiers \<^verbatim>\<open>*\<close>, \<^verbatim>\<open>+\<close> and \<^verbatim>\<open>+?\<close> on a
  class, capture groups and one lookahead. They are kept as data and run by a
  backtracking matcher that lists the ways a pattern matches at the start of a string in
  the order a backtracking engine tries them; the first is the match.
\<close>

datatype cclass =
    CChar char
  | CCharI char
  | CSpace
  | CWord
  | CSet string

datatype rx =
    Chr cclass
  | Star cclass
  | Plus cclass
  | PlusLazy cclass
  | Cap "rx list"
  | Look cclass

text \<open>White space of \<^verbatim>\<open>\s\<close> and of \<^verbatim>\<open>trim\<close>, among the code units below 256.\<close>

definition is_js_space :: "char \<Rightarrow> bool" where
  "is_js_space c = (c \<in> set [CHR 0x09, CHR 0x0A, CHR 0x0B, CHR 0x0C, CHR 0x0D, CHR 0x20, CHR 0xA0])"

definition is_word_char :: "char \<Rightarrow> bool" where
  "is_word_char c = (c \<in> set ''abcdefghijklmnopqrstuvwxyzABCDEFGHIJKLMNOPQRSTUVWXYZ0123456789_'')"

text \<open>\<^verbatim>\<open>toLowerCase\<close> on a code unit below 256: the ASCII and the Latin-1 capital letters.\<close>

definition js_lower :: "char \<Rightarrow> char" where
  "js_lower c =
     (let n = (of_char c :: nat)
      in if (65 \<le> n \<and> n \<le> 90) \<or> (192 \<le> n \<and> n \<le> 222 \<and> n \<noteq> 215) then char_of (n + 32) else c)"

definition ascii_lower :: "char \<Rightarrow> char" where
  "ascii_lower c =
     (let n = (of_char c :: nat) in if 65 \<le> n \<and> n \<le> 90 then char_of (n + 32) else c)"

text \<open>
  Under the \<^verbatim>\<open>i\<close> flag a literal ASCII character matches itself in either case:
  no code unit outside ASCII canonicalises to an ASCII letter.
\<close>

fun in_class :: "cclass \<Rightarrow> char \<Rightarrow> bool" where
  "in_class (CChar p) c = (c = p)"
| "in_class (CCharI p) c = (ascii_lower c = ascii_lower p)"
| "in_class CSpace c = is_js_space c"
| "in_class CWord c = is_word_char c"
| "in_class (CSet cs) c = (c \<in> set cs)"

fun match_one :: "rx \<Rightarrow> string \<Rightarrow> (string list \<times> string) list"
  and match_seq :: "rx list \<Rightarrow> string \<Rightarrow> (string list \<times> string) list"
where
  "match_one (Chr cl) s =
     (case s of [] \<Rightarrow> [] | x # xs \<Rightarrow> if in_class cl x then [([], xs)] else [])"
| "match_one (Star cl) s =
     map (\<lambda>k. ([], drop k s)) (rev [0 ..< Suc (length (takeWhile (in_class cl) s))])"
| "match_one (Plus cl) s =
     map (\<lambda>k. ([], drop k s)) (rev [1 ..< Suc (length (takeWhile (in_class cl) s))])"
| "match_one (PlusLazy cl) s =
     map (\<lambda>k. ([], drop k s)) [1 ..< Suc (length (takeWhile (in_class cl) s))]"
| "match_one (Cap rs) s =
     map (\<lambda>m. (take (length s - length (snd m)) s # fst m, snd m)) (match_seq rs s)"
| "match_one (Look cl) s =
     (case s of [] \<Rightarrow> [] | x # xs \<Rightarrow> if in_class cl x then [([], s)] else [])"
| "match_seq [] s = [([], s)]"
| "match_seq (r # rs) s =
     concat (map (\<lambda>m. map (\<lambda>m'. (fst m @ fst m', snd m')) (match_seq rs (snd m)))
                 (match_one r s))"

text \<open>\<^verbatim>\<open>text.match(re)\<close> without the \<^verbatim>\<open>g\<close> flag: the captures of the leftmost match.\<close>

fun regex_search :: "rx list \<Rightarrow> string \<Rightarrow> string list option" where
  "regex_search rs [] = (case match_seq rs [] of [] \<Rightarrow> None | m # _ \<Rightarrow> Some (fst m))"
| "regex_search rs (c # cs) =
     (case match_seq rs (c # cs) of [] \<Rightarrow> regex_search rs cs | m # _ \<Rightarrow> Some (fst m))"

text \<open>A replacement string: literal text and group references \<^verbatim>\<open>$n\<close>.\<close>

datatype rpiece = RText string | RGroup nat

fun expand :: "rpiece list \<Rightarrow> string list \<Rightarrow> string" where
  "expand [] caps = []"
| "expand (RText t # ps) caps = t @ expand ps caps"
| "expand (RGroup n # ps) caps = (if n - 1 < length caps then caps ! (n - 1) else []) @ expand ps caps"

text \<open>
  \<^verbatim>\<open>text.replace(re, replacement)\<close> with the \<^verbatim>\<open>g\<close> flag: matches are taken left to
  right, each search starting where the last match ended (one code unit further after an
  empty match).
\<close>

function replace_all :: "rx list \<Rightarrow> rpiece list \<Rightarrow> string \<Rightarrow> string" where
  "replace_all rs tmpl [] =
     (case match_seq rs [] of [] \<Rightarrow> [] | m # _ \<Rightarrow> expand tmpl (fst m))"
| "replace_all rs tmpl (c # cs) =
     (case match_seq rs (c # cs) of
        [] \<Rightarrow> c # replace_all rs tmpl cs
      | m # _ \<Rightarrow>
          if length (c # cs) - length (snd m) = 0
          then expand tmpl (fst m) @ c # replace_all rs tmpl cs
          else expand tmpl (fst m)
               @ replace_all rs tmpl (drop (length (c # cs) - length (snd m)) (c # cs)))"
  by pat_completeness auto
termination
  by (relation "measure (\<lambda>(rs, tmpl, s). length s)") auto

declare replace_all.simps [simp del]

text \<open>\<^verbatim>\<open>trim\<close>, and \<^verbatim>\<open>lastIndexOf\<close> of one character.\<close>

definition js_trim :: "string \<Rightarrow> string" where
  "js_trim s = rev (dropWhile is_js_space (rev (dropWhile is_js_space s)))"

definition lastIndexOf_char :: "string \<Rightarrow> char \<Rightarrow> nat option" where
  "lastIndexOf_char s c =
     (case find_index (\<lambda>x. x = c) (rev s) of
        None \<Rightarrow> None
      | Some i \<Rightarrow> Some (length s - 1 - i))"

subsection \<open>The module's functions\<close>

text \<open>
  The scanning loop of \<^verbatim>\<open>findMatchingBracket\<close>, run over the characters from position
  \<open>i\<close> on, and the function itself; \<open>None\<close> stands for \<^verbatim>\<open>-1\<close>.
\<close>

fun find_bracket_end ::
  "string \<Rightarrow> nat \<Rightarrow> int \<Rightarrow> bool \<Rightarrow> bool \<Rightarrow> char \<Rightarrow> char \<Rightarrow> nat option" where
  "find_bracket_end [] i bracketCount inString escapeNext openChar closeChar = None"
| "find_bracket_end (c # cs) i bracketCount inString escapeNext openChar closeChar =
     (if escapeNext then find_bracket_end cs (i + 1) bracketCount inString False openChar closeChar
      else if c = CHR 0x5C \<and> inString
        then find_bracket_end cs (i + 1) bracketCount inString True openChar closeChar
      else if c = CHR 0x22
        then find_bracket_end cs (i + 1) bracketCount (\<not> inString) False openChar closeChar
      else if \<not> inString then
        (if c = openChar
           then find_bracket_end cs (i + 1) (bracketCount + 1) inString False openChar closeChar
         else if c = closeChar then
           (if bracketCount - 1 = 0 then Some i
            else find_bracket_end cs (i + 1) (bracketCount - 1) inString False openChar closeChar)
         else find_bracket_end cs (i + 1) bracketCount inString False openChar closeChar)
      else find_bracket_end cs (i + 1) bracketCount inString False openChar closeChar)"

definition findMatchingBracket :: "string \<Rightarrow> nat \<Rightarrow> char \<Rightarrow> char \<Rightarrow> nat option" where
  "findMatchingBracket text startPos openChar closeChar =
     (if text = [] \<or> startPos \<ge> length text \<or> text ! startPos \<noteq> openChar then None
      else find_bracket_end (drop (startPos + 1) text) (startPos + 1) 1 False False openChar closeChar)"

text \<open>
  \<^verbatim>\<open>repairJson\<close>: the three replacements, in order. The set \<^verbatim>\<open>[a-zA-Z0-9_]\<close> is the
  class \<^verbatim>\<open>\w\<close>.
\<close>

definition trailing_comma_rx :: "rx list" where
  "trailing_comma_rx = [Chr (CChar (CHR '','')), Star CSpace, Cap [Chr (CSet ''}]'')]]"

definition unquoted_key_rx :: "rx list" where
  "unquoted_key_rx =
     [Cap [Chr (CSet ''{,''), Star CSpace], Cap [PlusLazy CWord], Star CSpace, Chr (CChar (CHR '':''))]"

definition bare_value_rx :: "rx list" where
  "bare_value_rx = [Chr (CChar (CHR '':'')), Star CSpace, Cap [Plus CWord], Look (CSet '',}]'')]"

definition repairJson :: "string \<Rightarrow> string" where
  "repairJson jsonStr =
     (let repaired1 = replace_all trailing_comma_rx [RGroup 1] jsonStr;
          repaired2 = replace_all unquoted_key_rx
                        [RGroup 1, RText [CHR 0x22], RGroup 2, RText [CHR 0x22, CHR '':'']] repaired1
      in replace_all bare_value_rx
           [RText [CHR '':'', CHR 0x22], RGroup 1, RText [CHR 0x22]] repaired2)"

text \<open>The pattern \<^verbatim>\<open>/\[Called\s+(\w+)\s+with\s+args:/i\<close>.\<close>

definition namePattern :: "rx list" where
  "namePattern =
     [Chr (CChar (CHR ''[''))]
     @ map (\<lambda>c. Chr (CCharI c)) ''Called''
     @ [Plus CSpace, Cap [Plus CWord], Plus CSpace]
     @ map (\<lambda>c. Chr (CCharI c)) ''with''
     @ [Plus CSpace]
     @ map (\<lambda>c. Chr (CCharI c)) ''args''
     @ [Chr (CChar (CHR '':''))]"

record tool_call =
  call_id :: string
  call_type :: string
  function_name :: string
  function_arguments :: string

text \<open>
  \<^verbatim>\<open>parseSingleToolCall(toolCallText)\<close>; \<open>newUuid\<close> is what \<^verbatim>\<open>uuidv4()\<close> returns when it
  is called, \<open>None\<close> stands for \<^verbatim>\<open>null\<close>.
\<close>

definition parseSingleToolCall :: "string \<Rightarrow> string \<Rightarrow> tool_call option" where
  "parseSingleToolCall newUuid toolCallText =
     (case regex_search namePattern toolCallText of
        None \<Rightarrow> None
      | Some nameMatch \<Rightarrow>
          (case indexOf (map js_lower toolCallText) (map js_lower ''with args:'') 0 of
             None \<Rightarrow> None
           | Some argsStartPos \<Rightarrow>
               (case lastIndexOf_char toolCallText (CHR '']'') of
                  None \<Rightarrow> None
                | Some argsEnd \<Rightarrow>
                    if argsEnd \<le> argsStartPos + length ''with args:'' then None
                    else
                      (case JSON_parse (repairJson (js_trim
                               (substring toolCallText (argsStartPos + length ''with args:'') argsEnd))) of
                         None \<Rightarrow> None
                       | Some argumentsObj \<Rightarrow>
                           (case argumentsObj of
                              JObject kvs \<Rightarrow>
                                Some \<lparr>call_id = ''call_'' @ take 8 (filter (\<lambda>c. c \<noteq> CHR ''-'') newUuid),
                                      call_type = ''function'',
                                      function_name = js_trim (hd nameMatch),
                                      function_arguments = JSON_stringify argumentsObj\<rparr>
                            | JArray vs \<Rightarrow>
                                Some \<lparr>call_id = ''call_'' @ take 8 (filter (\<lambda>c. c \<noteq> CHR ''-'') newUuid),
                                      call_type = ''function'',
                                      function_name = js_trim (hd nameMatch),
                                      function_arguments = JSON_stringify argumentsObj\<rparr>
                            | _ \<Rightarrow> None)))))"

text \<open>The \<^verbatim>\<open>while\<close> loop collecting the positions of \<^verbatim>\<open>[Called\<close>.\<close>

lemma index_of_less: "pat \<noteq> [] \<Longrightarrow> index_of pat s = Some i \<Longrightarrow> i < length s"
  by (induction s arbitrary: i) (auto split: if_splits)

function collect_positions :: "string \<Rightarrow> nat \<Rightarrow> nat list" where
  "collect_positions text start =
     (case indexOf text ''[Called'' start of
        None \<Rightarrow> []
      | Some pos \<Rightarrow> pos # collect_positions text (pos + 1))"
  by pat_completeness auto
termination
proof (relation "measure (\<lambda>(text, start). length text - start)")
  show "wf (measure (\<lambda>(text, start). length text - start))" by simp
next
  fix str :: string and start pos :: nat
  assume a: "indexOf str ''[Called'' start = Some pos"
  then obtain i where i: "index_of ''[Called'' (drop start str) = Some i" and p: "pos = start + i"
    by (auto simp: indexOf_def)
  from index_of_less [OF _ i] have "i < length str - start" by simp
  with p show "((str, pos + 1), (str, start)) \<in> measure (\<lambda>(text, start). length text - start)"
    by simp
qed

declare collect_positions.simps [simp del]

text \<open>
  The \<^verbatim>\<open>for\<close> loop over the positions. \<open>uuids k\<close> is the result of the \<open>k\<close>-th call of
  \<^verbatim>\<open>uuidv4\<close>, and \<open>k\<close> counts the calls made so far.
\<close>

definition tool_call_text :: "string \<Rightarrow> string option" where
  "tool_call_text segment =
     (case findMatchingBracket segment 0 (CHR ''['') (CHR '']'') of
        Some bracketEnd \<Rightarrow> Some (substring segment 0 (bracketEnd + 1))
      | None \<Rightarrow>
          (case lastIndexOf_char segment (CHR '']'') of
             Some lastBracket \<Rightarrow> Some (substring segment 0 (lastBracket + 1))
           | None \<Rightarrow> None))"

fun process_calls :: "(nat \<Rightarrow> string) \<Rightarrow> string \<Rightarrow> nat list \<Rightarrow> nat \<Rightarrow> tool_call list" where
  "process_calls uuids responseText [] k = []"
| "process_calls uuids responseText (startPos # rest) k =
     (case tool_call_text
             (substring responseText startPos
                (case rest of [] \<Rightarrow> length responseText | next_pos # _ \<Rightarrow> next_pos)) of
        None \<Rightarrow> process_calls uuids responseText rest k
      | Some toolCallText \<Rightarrow>
          (case parseSingleToolCall (uuids k) toolCallText of
             None \<Rightarrow> process_calls uuids responseText rest k
           | Some parsedCall \<Rightarrow> parsedCall # process_calls uuids responseText rest (k + 1)))"

text \<open>\<^verbatim>\<open>parseBracketToolCalls(responseText)\<close>; \<open>None\<close> stands for \<^verbatim>\<open>null\<close>.\<close>

definition parseBracketToolCalls :: "(nat \<Rightarrow> string) \<Rightarrow> string \<Rightarrow> tool_call list option" where
  "parseBracketToolCalls uuids responseText =
     (if responseText = [] \<or> indexOf responseText ''[Called'' 0 = None then None
      else
        let toolCalls = process_calls uuids responseText (collect_positions responseText 0) 0
        in if toolCalls = [] then None else Some toolCalls)"


section \<open>Request builder (claude/kiro-request-builder.js)\<close>

subsection \<open>The Claude request\<close>

text \<open>
  A part as \<^verbatim>\<open>getContentText\<close> sees it: its \<^verbatim>\<open>type\<close> and its \<^verbatim>\<open>text\<close> (\<open>None\<close> when
  the part has none). The content of a \<^verbatim>\<open>tool_result\<close> block is missing, a string or
  an array of parts; a content block is one of the four typed blocks or a block of
  another type; the content of a message is a string or an array of blocks.
\<close>

type_synonym part = "string \<times> string option"

datatype tool_result_content = TRNull | TRString string | TRParts "part list"

datatype block =
    TextBlock string
  | ToolResultBlock "string option" tool_result_content
  | ToolUseBlock "string option" "string option" "json option"
  | ImageBlock string string
  | OtherBlock string

datatype message_content = CString string | CBlocks "block list"

record message =
  role :: string
  content :: message_content



subsection \<open>The Kiro envelope\<close>














subsection \<open>getContentText\<close>







subsection \<open>The steps of buildCodewhispererRequest\<close>























section \<open>Properties of the provider pool manager\<close>

lemma js_increment_exact: "- (2 ^ 53) \<le> n \<Longrightarrow> n < 2 ^ 53 \<Longrightarrow> js_increment n = n + 1"
  by (simp add: js_increment_def)

lemma js_increment_ge: "n \<le> js_increment n"
  by (simp add: js_increment_def)

lemma js_increment_small [simp]:
  "js_increment 0 = 1" "js_increment 1 = 2" "js_increment 2 = 3" "js_increment 3 = 4"
  by (simp_all add: js_increment_def)

lemma find_index_Some: "find_index P xs = Some i \<Longrightarrow> i < length xs \<and> P (xs ! i)"
  by (induction xs arbitrary: i) (auto split: if_splits)

lemma find_index_None: "find_index P xs = None \<longleftrightarrow> (\<forall>x\<in>set xs. \<not> P x)"
  by (induction xs) auto

lemma find_index_map: "find_index (\<lambda>p. f p = u) xs = find_index (\<lambda>v. v = u) (map f xs)"
  by (induction xs) simp_all

lemma map_update_same: "i < length ps \<Longrightarrow> f a = f (ps ! i) \<Longrightarrow> map f (ps[i := a]) = map f ps"
  by (simp add: map_update list_update_same_conv)

lemma findProvider_cong: "map uuid (providerStatus pm') = map uuid (providerStatus pm) \<Longrightarrow> findProvider pm' u = findProvider pm u"
  by (simp add: findProvider_def find_index_map [of uuid])

lemma uuid_unhealthy_update [simp]: "uuid (unhealthy_update m t1 t2 msg a) = uuid a"
  by (simp add: unhealthy_update_def Let_def)
lemma uuid_healthy_update [simp]: "uuid (healthy_update t1 t2 r m a) = uuid a"
  by (simp add: healthy_update_def Let_def)
lemma uuid_reset_update [simp]: "uuid (reset_update a) = uuid a"
  by (simp add: reset_update_def)

lemma uuid_mark_update [simp]: "uuid (mark_update mx op a) = uuid a"
  by (cases op) simp_all

lemma apply_mark_found:
  assumes "findProvider pm (config_uuid c) = Some i"
  shows "apply_mark c pm op = debouncedSave (pm\<lparr>providerStatus := (providerStatus pm)[i := mark_update (maxErrorCount pm) op (providerStatus pm ! i)]\<rparr>)"
proof -
  from assms have t: "truthy (config_uuid c)" by (simp add: findProvider_def split: if_splits)
  show ?thesis using assms t
    by (cases op) (simp_all add: markProviderUnhealthy_def markProviderHealthy_def resetProviderCounters_def)
qed

lemma apply_mark_status:
  assumes "findProvider pm (config_uuid c) = Some i"
  shows "providerStatus (apply_mark c pm op) = (providerStatus pm)[i := mark_update (maxErrorCount pm) op (providerStatus pm ! i)]"
  by (simp add: apply_mark_found [OF assms] debouncedSave_def)

lemma findProvider_bound:
  assumes "findProvider pm u = Some i"
  shows "i < length (providerStatus pm)"
  using assms
    by (auto simp: findProvider_def split: if_splits dest: find_index_Some)

lemma apply_mark_keeps:
  assumes "findProvider pm (config_uuid c) = Some i"
  shows "findProvider (apply_mark c pm op) (config_uuid c) = Some i"
    and "maxErrorCount (apply_mark c pm op) = maxErrorCount pm"
    and "length (providerStatus (apply_mark c pm op)) = length (providerStatus pm)"
proof -
  note i = findProvider_bound [OF assms]
  have "map uuid ((providerStatus pm)[i := mark_update (maxErrorCount pm) op (providerStatus pm ! i)]) = map uuid (providerStatus pm)"
    by (rule map_update_same) (simp_all add: i)
  then have "map uuid (providerStatus (apply_mark c pm op)) = map uuid (providerStatus pm)"
    unfolding apply_mark_status [OF assms] .
  from findProvider_cong [OF this, of "config_uuid c"] assms
  show "findProvider (apply_mark c pm op) (config_uuid c) = Some i"
    by simp
  show "maxErrorCount (apply_mark c pm op) = maxErrorCount pm"
    by (simp add: apply_mark_found [OF assms] debouncedSave_def)
  show "length (providerStatus (apply_mark c pm op)) = length (providerStatus pm)"
    by (simp add: apply_mark_status [OF assms])
qed

lemma apply_marks_keeps:
  assumes "findProvider pm (config_uuid c) = Some i"
  shows "findProvider (apply_marks c pm ops) (config_uuid c) = Some i
    \<and> maxErrorCount (apply_marks c pm ops) = maxErrorCount pm
    \<and> length (providerStatus (apply_marks c pm ops)) = length (providerStatus pm)"
  using assms unfolding apply_marks_def
proof (induction ops arbitrary: pm)
  case Nil then show ?case by simp
next
  case (Cons op ops)
  from Cons.IH [OF apply_mark_keeps(1) [OF Cons.prems]] apply_mark_keeps(2,3) [OF Cons.prems, of op]
  show ?case by simp
qed

lemma apply_marks_snoc: "apply_marks c pm (ops @ [op]) = apply_mark c (apply_marks c pm ops) op"
  by (simp add: apply_marks_def)


lemma budget_inv_step:
  "1 \<le> mx \<Longrightarrow> \<not> is_reset_op op \<Longrightarrow> budget_inv mx a \<Longrightarrow> budget_inv mx (mark_update mx op a)"
  using js_increment_ge [of "errorCount a"]
  by (cases op) (auto simp: budget_inv_def unhealthy_update_def healthy_update_def Let_def)

lemma budget_weak_step:
  "1 \<le> mx \<Longrightarrow> (errorCount a \<ge> mx \<longrightarrow> isHealthy a = False)
     \<Longrightarrow> (errorCount (mark_update mx op a) \<ge> mx \<longrightarrow> isHealthy (mark_update mx op a) = False)"
  by (cases op) (auto simp: unhealthy_update_def healthy_update_def reset_update_def Let_def)

lemma healthy_update_fields:
  "isHealthy (healthy_update tc tu r m a) \<and> errorCount (healthy_update tc tu r m a) = 0 \<and>
   lastErrorTime (healthy_update tc tu r m a) = None \<and> lastErrorMessage (healthy_update tc tu r m a) = None"
  by (simp add: healthy_update_def Let_def)

lemma apply_marks_budget:
  assumes found: "findProvider pm (config_uuid c) = Some i"
    and mx: "1 \<le> maxErrorCount pm"
    and init: "budget_inv (maxErrorCount pm) (providerStatus pm ! i)"
  shows "((\<forall>op\<in>set ops. \<not> is_reset_op op) \<longrightarrow>
            budget_inv (maxErrorCount pm) (providerStatus (apply_marks c pm ops) ! i))
       \<and> (errorCount (providerStatus (apply_marks c pm ops) ! i) \<ge> maxErrorCount pm \<longrightarrow>
            isHealthy (providerStatus (apply_marks c pm ops) ! i) = False)"
proof (induction ops rule: rev_induct)
  case Nil
  from init show ?case by (simp add: apply_marks_def budget_inv_def)
next
  case (snoc op ops)
  let ?pm = "apply_marks c pm ops"
  from apply_marks_keeps [OF found, of ops]
  have f: "findProvider ?pm (config_uuid c) = Some i" and m: "maxErrorCount ?pm = maxErrorCount pm"
    by simp_all
  have i: "i < length (providerStatus ?pm)" by (rule findProvider_bound [OF f])
  have st: "providerStatus (apply_marks c pm (ops @ [op])) ! i
             = mark_update (maxErrorCount pm) op (providerStatus ?pm ! i)"
    by (simp add: apply_marks_snoc apply_mark_status [OF f] m i)
  show ?case
  proof (intro conjI impI)
    assume "\<forall>op\<in>set (ops @ [op]). \<not> is_reset_op op"
    then have a: "\<forall>op\<in>set ops. \<not> is_reset_op op" and b: "\<not> is_reset_op op" by simp_all
    from snoc a have "budget_inv (maxErrorCount pm) (providerStatus ?pm ! i)" by blast
    from budget_inv_step [OF mx b this]
    show "budget_inv (maxErrorCount pm) (providerStatus (apply_marks c pm (ops @ [op])) ! i)"
      by (simp only: st)
  next
    assume e: "maxErrorCount pm \<le> errorCount (providerStatus (apply_marks c pm (ops @ [op])) ! i)"
    from snoc have "errorCount (providerStatus ?pm ! i) \<ge> maxErrorCount pm \<longrightarrow>
            isHealthy (providerStatus ?pm ! i) = False" by blast
    from budget_weak_step [OF mx this, of op] e
    show "isHealthy (providerStatus (apply_marks c pm (ops @ [op])) ! i) = False"
      by (simp only: st)
  qed
qed

lemma markHealthy_restores:
  assumes found: "findProvider pm (config_uuid c) = Some i"
  shows "isHealthy (providerStatus (markProviderHealthy pm tc tu c r m) ! i) \<and>
         errorCount (providerStatus (markProviderHealthy pm tc tu c r m) ! i) = 0 \<and>
         lastErrorTime (providerStatus (markProviderHealthy pm tc tu c r m) ! i) = None \<and>
         lastErrorMessage (providerStatus (markProviderHealthy pm tc tu c r m) ! i) = None"
proof -
  note i = findProvider_bound [OF found]
  have "providerStatus (markProviderHealthy pm tc tu c r m) ! i = healthy_update tc tu r m (providerStatus pm ! i)"
    using apply_mark_status [OF found, of "MarkHealthy tc tu r m"] i by simp
  then show ?thesis by (simp only: healthy_update_fields)
qed


lemma apply_marks_account:
  assumes found: "findProvider pm (config_uuid c) = Some i"
  shows "providerStatus (apply_marks c pm ops) ! i
           = foldl (\<lambda>a op. mark_update (maxErrorCount pm) op a) (providerStatus pm ! i) ops"
proof (induction ops rule: rev_induct)
  case Nil
  show ?case by (simp add: apply_marks_def)
next
  case (snoc op ops)
  let ?pm = "apply_marks c pm ops"
  from apply_marks_keeps [OF found, of ops]
  have f: "findProvider ?pm (config_uuid c) = Some i" and m: "maxErrorCount ?pm = maxErrorCount pm"
    by simp_all
  have i: "i < length (providerStatus ?pm)" by (rule findProvider_bound [OF f])
  have "providerStatus (apply_marks c pm (ops @ [op])) ! i
             = mark_update (maxErrorCount pm) op (providerStatus ?pm ! i)"
    by (simp add: apply_marks_snoc apply_mark_status [OF f] m i)
  with snoc show ?case by simp
qed

lemma reached_start: "errorCount a \<ge> mx \<Longrightarrow> reached mx a ops"
  by (cases ops) simp_all

lemma unhealthy_reached:
  assumes mx: "1 \<le> mx"
  shows "\<forall>op\<in>set ops. \<not> is_healthy_op op \<Longrightarrow> errorCount a \<ge> mx \<longrightarrow> isHealthy a = False \<Longrightarrow>
         isHealthy (foldl (\<lambda>a op. mark_update mx op a) a ops) = False
           \<longleftrightarrow> isHealthy a = False \<or> reached mx a ops"
proof (induction ops arbitrary: a)
  case Nil
  then show ?case by auto
next
  case (Cons op ops)
  let ?b = "mark_update mx op a"
  from Cons.prems have nh: "\<forall>op\<in>set ops. \<not> is_healthy_op op" and o: "\<not> is_healthy_op op"
    by simp_all
  from budget_weak_step [OF mx Cons.prems(2), of op]
  have w: "errorCount ?b \<ge> mx \<longrightarrow> isHealthy ?b = False" .
  from Cons.IH [OF nh w]
  have ih: "isHealthy (foldl (\<lambda>a op. mark_update mx op a) ?b ops) = False
           \<longleftrightarrow> isHealthy ?b = False \<or> reached mx ?b ops" .
  have step: "isHealthy ?b = False \<longleftrightarrow> isHealthy a = False \<or> errorCount ?b \<ge> mx"
    using o mx by (cases op) (auto simp: unhealthy_update_def reset_update_def Let_def)
  from reached_start [of mx ?b ops]
  have r: "errorCount ?b \<ge> mx \<Longrightarrow> reached mx ?b ops" .
  from ih step r Cons.prems(2) show ?case by auto
qed


subsection \<open>Error budget\<close>

text \<open>
  Claim C1, as amended. Let an account be found in the pool under the uuid of the
  provider configuration and let \<^verbatim>\<open>maxErrorCount\<close> be at least 1. After a
  \<^verbatim>\<open>markProviderHealthy\<close>, or from a state that is healthy with \<^verbatim>\<open>errorCount\<close> below
  \<^verbatim>\<open>maxErrorCount\<close>, and any finite sequence of \<^verbatim>\<open>markProviderUnhealthy\<close> and
  \<^verbatim>\<open>resetProviderCounters\<close> calls: \<^verbatim>\<open>isHealthy = false\<close> holds iff the \<^verbatim>\<open>errorCount\<close>
  was at or above \<^verbatim>\<open>maxErrorCount\<close> after one of these calls (it has reached the
  budget since the last \<^verbatim>\<open>markProviderHealthy\<close>). When the sequence holds no
  \<^verbatim>\<open>resetProviderCounters\<close>, this is the same as \<^verbatim>\<open>errorCount \<ge> maxErrorCount\<close> in the
  final state. \<^verbatim>\<open>markProviderHealthy\<close> sets \<^verbatim>\<open>isHealthy\<close> and clears \<^verbatim>\<open>errorCount\<close>,
  \<^verbatim>\<open>lastErrorTime\<close> and \<^verbatim>\<open>lastErrorMessage\<close>.
\<close>

theorem error_budget_marks:
  assumes found: "findProvider pm (config_uuid c) = Some i"
    and mx: "1 \<le> maxErrorCount pm"
    and nh: "\<forall>op\<in>set ops. \<not> is_healthy_op op"
  shows "(isHealthy (providerStatus (apply_marks c (markProviderHealthy pm tc tu c r m) ops) ! i) = False
            \<longleftrightarrow> reached (maxErrorCount pm) (providerStatus (markProviderHealthy pm tc tu c r m) ! i) ops)
       \<and> (isHealthy (providerStatus pm ! i) \<and> errorCount (providerStatus pm ! i) < maxErrorCount pm \<longrightarrow>
            (isHealthy (providerStatus (apply_marks c pm ops) ! i) = False
               \<longleftrightarrow> reached (maxErrorCount pm) (providerStatus pm ! i) ops))
       \<and> ((\<forall>op\<in>set ops. \<not> is_reset_op op) \<longrightarrow>
            budget_inv (maxErrorCount pm)
              (providerStatus (apply_marks c (markProviderHealthy pm tc tu c r m) ops) ! i))
       \<and> isHealthy (providerStatus (markProviderHealthy pm tc tu c r m) ! i)
       \<and> errorCount (providerStatus (markProviderHealthy pm tc tu c r m) ! i) = 0
       \<and> lastErrorTime (providerStatus (markProviderHealthy pm tc tu c r m) ! i) = None
       \<and> lastErrorMessage (providerStatus (markProviderHealthy pm tc tu c r m) ! i) = None"
proof -
  let ?h = "markProviderHealthy pm tc tu c r m"
  have fh: "findProvider ?h (config_uuid c) = Some i"
    using apply_mark_keeps(1) [OF found, of "MarkHealthy tc tu r m"] by simp
  have mh: "maxErrorCount ?h = maxErrorCount pm"
    using apply_mark_keeps(2) [OF found, of "MarkHealthy tc tu r m"] by simp
  note rs = markHealthy_restores [OF found, of tc tu r m]
  from rs mx have sh: "isHealthy (providerStatus ?h ! i)"
    "errorCount (providerStatus ?h ! i) < maxErrorCount pm" by simp_all
  have a: "isHealthy (providerStatus (apply_marks c ?h ops) ! i) = False
            \<longleftrightarrow> reached (maxErrorCount pm) (providerStatus ?h ! i) ops"
    using unhealthy_reached [OF mx nh, of "providerStatus ?h ! i"] sh
    by (simp add: apply_marks_account [OF fh] mh)
  have b: "isHealthy (providerStatus pm ! i) \<and> errorCount (providerStatus pm ! i) < maxErrorCount pm \<longrightarrow>
            (isHealthy (providerStatus (apply_marks c pm ops) ! i) = False
               \<longleftrightarrow> reached (maxErrorCount pm) (providerStatus pm ! i) ops)"
    using unhealthy_reached [OF mx nh, of "providerStatus pm ! i"]
    by (simp add: apply_marks_account [OF found])
  from sh have init: "budget_inv (maxErrorCount ?h) (providerStatus ?h ! i)"
    by (simp add: budget_inv_def mh)
  from mx have mx': "1 \<le> maxErrorCount ?h" by (simp add: mh)
  from apply_marks_budget [OF fh mx' init, of ops]
  have c: "(\<forall>op\<in>set ops. \<not> is_reset_op op) \<longrightarrow>
            budget_inv (maxErrorCount pm) (providerStatus (apply_marks c ?h ops) ! i)"
    by (simp add: mh)
  from a b c rs show ?thesis by blast
qed

text \<open>
  The theorem at a pool of one fresh account with budget 3: after three failures and a
  counter reset the account is unhealthy, the budget was reached on the way, and a
  success then restores the account.
\<close>

theorem error_budget_marks_witness:
  "findProvider single_pool (config_uuid (Some (initial_account ''a''))) = Some 0
   \<and> 1 \<le> maxErrorCount single_pool
   \<and> list_all (\<lambda>op. \<not> is_healthy_op op)
        [MarkUnhealthy 1 1 None, MarkUnhealthy 2 2 None, MarkUnhealthy 3 3 None, ResetCounters]
   \<and> isHealthy (providerStatus single_pool ! 0)
   \<and> errorCount (providerStatus single_pool ! 0) < maxErrorCount single_pool
   \<and> reached (maxErrorCount single_pool) (providerStatus single_pool ! 0)
        [MarkUnhealthy 1 1 None, MarkUnhealthy 2 2 None, MarkUnhealthy 3 3 None, ResetCounters]
   \<and> isHealthy (providerStatus (apply_marks (Some (initial_account ''a'')) single_pool
        [MarkUnhealthy 1 1 None, MarkUnhealthy 2 2 None, MarkUnhealthy 3 3 None, ResetCounters]) ! 0)
       = False
   \<and> list_all (\<lambda>op. \<not> is_reset_op op) [MarkUnhealthy 1 1 None, MarkUnhealthy 2 2 None]
   \<and> budget_inv (maxErrorCount single_pool)
        (providerStatus (apply_marks (Some (initial_account ''a''))
           (markProviderHealthy single_pool 0 0 (Some (initial_account ''a'')) False None)
           [MarkUnhealthy 1 1 None, MarkUnhealthy 2 2 None]) ! 0)
   \<and> isHealthy (providerStatus
        (markProviderHealthy single_pool 0 0 (Some (initial_account ''a'')) False None) ! 0)"
proof -
  have h1: "findProvider single_pool (config_uuid (Some (initial_account ''a''))) = Some 0"
    by (simp add: findProvider_def config_uuid_def truthy_def single_pool_def initial_account_def)
  have h2: "1 \<le> maxErrorCount single_pool"
    by (simp add: single_pool_def)
  have h3: "\<forall>op\<in>set [MarkUnhealthy 1 1 None, MarkUnhealthy 2 2 None, MarkUnhealthy 3 3 None,
                      ResetCounters]. \<not> is_healthy_op op"
    by simp
  have h3': "\<forall>op\<in>set [MarkUnhealthy 1 1 None, MarkUnhealthy 2 2 None]. \<not> is_healthy_op op"
    by simp
  have h4: "isHealthy (providerStatus single_pool ! 0)
      \<and> errorCount (providerStatus single_pool ! 0) < maxErrorCount single_pool"
    by (simp add: single_pool_def initial_account_def)
  have h5: "reached (maxErrorCount single_pool) (providerStatus single_pool ! 0)
        [MarkUnhealthy 1 1 None, MarkUnhealthy 2 2 None, MarkUnhealthy 3 3 None, ResetCounters]"
    by (simp add: single_pool_def initial_account_def unhealthy_update_def Let_def truthy_def)
  have h6: "\<forall>op\<in>set [MarkUnhealthy 1 1 None, MarkUnhealthy 2 2 None]. \<not> is_reset_op op"
    by simp
  from error_budget_marks [OF h1 h2 h3, of 0 0 False None] h4 h5
  have a: "isHealthy (providerStatus (apply_marks (Some (initial_account ''a'')) single_pool
        [MarkUnhealthy 1 1 None, MarkUnhealthy 2 2 None, MarkUnhealthy 3 3 None, ResetCounters]) ! 0)
       = False" by blast
  from error_budget_marks [OF h1 h2 h3', of 0 0 False None] h6
  have b: "budget_inv (maxErrorCount single_pool)
        (providerStatus (apply_marks (Some (initial_account ''a''))
           (markProviderHealthy single_pool 0 0 (Some (initial_account ''a'')) False None)
           [MarkUnhealthy 1 1 None, MarkUnhealthy 2 2 None]) ! 0)"
    and c: "isHealthy (providerStatus
        (markProviderHealthy single_pool 0 0 (Some (initial_account ''a'')) False None) ! 0)"
    by blast+
  from h1 h2 h3 h4 h5 h6 a b c show ?thesis by (simp only: list_all_iff)
qed

text \<open>
  The claim as stated fails in two ways. With the default budget of 3, after three
  failures and a \<^verbatim>\<open>resetProviderCounters\<close> the account is unhealthy although its
  \<^verbatim>\<open>errorCount\<close> is 0, so unhealthy is not the same as \<^verbatim>\<open>errorCount \<ge> maxErrorCount\<close>.
  With a budget of 0, which the constructor accepts, an account is healthy right after
  \<^verbatim>\<open>markProviderHealthy\<close> although its \<^verbatim>\<open>errorCount\<close> of 0 has reached the budget.
\<close>

theorem error_budget_counterexample:
  "isHealthy (providerStatus (apply_marks (Some (initial_account ''a'')) single_pool
       [MarkUnhealthy 1 1 None, MarkUnhealthy 2 2 None, MarkUnhealthy 3 3 None, ResetCounters]) ! 0)
     = False
   \<and> errorCount (providerStatus (apply_marks (Some (initial_account ''a'')) single_pool
       [MarkUnhealthy 1 1 None, MarkUnhealthy 2 2 None, MarkUnhealthy 3 3 None, ResetCounters]) ! 0)
     = 0
   \<and> \<not> (errorCount (providerStatus (apply_marks (Some (initial_account ''a'')) single_pool
       [MarkUnhealthy 1 1 None, MarkUnhealthy 2 2 None, MarkUnhealthy 3 3 None, ResetCounters]) ! 0)
        \<ge> maxErrorCount single_pool)
   \<and> isHealthy (providerStatus
        (markProviderHealthy zero_budget_pool 1 1 (Some (initial_account ''a'')) False None) ! 0)
     = True
   \<and> errorCount (providerStatus
        (markProviderHealthy zero_budget_pool 1 1 (Some (initial_account ''a'')) False None) ! 0)
     \<ge> maxErrorCount
         (markProviderHealthy zero_budget_pool 1 1 (Some (initial_account ''a'')) False None)"
  by (simp add: apply_marks_def markProviderUnhealthy_def resetProviderCounters_def
      markProviderHealthy_def healthy_update_def zero_budget_pool_def
      findProvider_def config_uuid_def truthy_def single_pool_def initial_account_def
      unhealthy_update_def reset_update_def debouncedSave_def)

subsection \<open>Algebra of markProviderHealthy\<close>






subsection \<open>Marks aimed at an unknown uuid\<close>

lemma findProvider_unknown:
  assumes "\<not> truthy u \<or> u \<notin> uuid ` set (providerStatus pm)"
  shows "findProvider pm u = None"
proof (cases "truthy u")
  case False
  then show ?thesis by (simp add: findProvider_def)
next
  case True
  with assms have "\<forall>p\<in>set (providerStatus pm). \<not> uuid p = u" by blast
  then have "find_index (\<lambda>p. uuid p = u) (providerStatus pm) = None"
    by (simp only: find_index_None)
  then show ?thesis by (simp add: findProvider_def)
qed

text \<open>
  Claim C10. When the provider configuration is missing, has no (or an empty) uuid, or
  has a uuid that no account of the pool carries, each of \<^verbatim>\<open>markProviderHealthy\<close>,
  \<^verbatim>\<open>markProviderUnhealthy\<close> and \<^verbatim>\<open>resetProviderCounters\<close> returns the manager unchanged:
  no account field moves and no save is scheduled. The three functions have no failing
  path (the source reads the uuid with \<^verbatim>\<open>?.\<close>), so the model has no error result.
\<close>

theorem unknown_uuid_marks_noop:
  assumes "\<not> truthy (config_uuid c) \<or> config_uuid c \<notin> uuid ` set (providerStatus pm)"
  shows "markProviderHealthy pm tc tu c r m = pm
       \<and> markProviderUnhealthy pm te tu' c msg = pm
       \<and> resetProviderCounters pm c = pm"
  using findProvider_unknown [OF assms]
  by (simp add: markProviderHealthy_def markProviderUnhealthy_def resetProviderCounters_def)

theorem unknown_uuid_marks_noop_witness:
  "config_uuid (Some (initial_account ''zz'')) \<notin> uuid ` set (providerStatus single_pool)
   \<and> \<not> truthy (config_uuid None)
   \<and> markProviderHealthy single_pool 7 7 (Some (initial_account ''zz'')) False None = single_pool
   \<and> markProviderUnhealthy single_pool 7 7 (Some (initial_account ''zz'')) (Some ''boom'') = single_pool
   \<and> resetProviderCounters single_pool (Some (initial_account ''zz'')) = single_pool
   \<and> markProviderUnhealthy single_pool 7 7 None (Some ''boom'') = single_pool"
proof -
  have h0: "config_uuid (Some (initial_account ''zz'')) \<notin> uuid ` set (providerStatus single_pool)"
    by (simp add: config_uuid_def single_pool_def initial_account_def)
  then have h1: "\<not> truthy (config_uuid (Some (initial_account ''zz'')))
      \<or> config_uuid (Some (initial_account ''zz'')) \<notin> uuid ` set (providerStatus single_pool)"
    by blast
  have h2: "\<not> truthy (config_uuid None) \<or> config_uuid None \<notin> uuid ` set (providerStatus single_pool)"
    by (simp add: config_uuid_def truthy_def)
  have h3: "\<not> truthy (config_uuid None)"
    by (simp add: config_uuid_def truthy_def)
  from unknown_uuid_marks_noop [OF h1] unknown_uuid_marks_noop [OF h2] h0 h3
  show ?thesis by simp
qed


subsection \<open>LRU selection\<close>

lemma lru_compare_le: "lru_compare a b \<le> 0 \<longleftrightarrow> lru_le a b"
  by (auto simp: lru_compare_def lru_le_def Let_def)

lemma lru_le_total: "lru_le a b \<or> lru_le b a"
  by (auto simp: lru_le_def)

lemma lru_le_trans: "lru_le a b \<Longrightarrow> lru_le b c \<Longrightarrow> lru_le a c"
  by (auto simp: lru_le_def)

lemma set_insert_by: "set (insert_by cmp x ys) = insert x (set ys)"
  by (induction ys) auto

lemma sort_by_Cons: "sort_by cmp (x # xs) = insert_by cmp x (sort_by cmp xs)"
  by (simp add: sort_by_def)

lemma set_sort_by: "set (sort_by cmp xs) = set xs"
  by (induction xs) (simp_all add: sort_by_Cons set_insert_by, simp add: sort_by_def)

lemma sort_by_head_min:
  assumes total: "\<And>a b. cmp a b \<le> 0 \<or> cmp b a \<le> 0"
    and trans: "\<And>a b c. cmp a b \<le> 0 \<Longrightarrow> cmp b c \<le> 0 \<Longrightarrow> cmp a c \<le> 0"
  shows "sort_by cmp xs = y # ys \<Longrightarrow> \<forall>x\<in>set xs. cmp y x \<le> 0"
proof (induction xs arbitrary: y ys)
  case Nil
  then show ?case by simp
next
  case (Cons x xs)
  have refl: "cmp x x \<le> 0" using total [of x x] by simp
  show ?case
  proof (cases "sort_by cmp xs")
    case Nil
    then have "set xs = {}" using set_sort_by [of cmp xs] by simp
    moreover from Nil Cons.prems have "y = x" by (simp add: sort_by_Cons)
    ultimately show ?thesis using refl by simp
  next
    case (Cons z zs)
    from Cons.IH [OF Cons] have zmin: "\<forall>w\<in>set xs. cmp z w \<le> 0" .
    show ?thesis
    proof (cases "cmp x z \<le> 0")
      case True
      with Cons Cons.prems have yx: "y = x" by (simp add: sort_by_Cons)
      have "\<forall>w\<in>set xs. cmp x w \<le> 0"
      proof
        fix w assume "w \<in> set xs"
        with zmin have "cmp z w \<le> 0" by simp
        from trans [OF True this] show "cmp x w \<le> 0" .
      qed
      with refl yx show ?thesis by simp
    next
      case False
      with Cons Cons.prems have "y = z" by (simp add: sort_by_Cons)
      moreover from False total [of x z] have "cmp z x \<le> 0" by simp
      ultimately show ?thesis using zmin by simp
    qed
  qed
qed

text \<open>The candidates of a selection: the qualifying accounts with their positions, in pool order.\<close>

lemma select_candidates:
  "(if truthy rm
    then filter (\<lambda>(i, p). supportsModel (the rm) p)
           (filter (\<lambda>(i, p). isHealthy p \<and> \<not> isDisabled p) (enumerate 0 ps))
    else filter (\<lambda>(i, p). isHealthy p \<and> \<not> isDisabled p) (enumerate 0 ps))
   = filter (\<lambda>(i, p). qualifies rm p) (enumerate 0 ps)"
  by (auto simp: qualifies_def supportsModel_def intro!: filter_cong split: option.splits)

lemma selectProvider_unfold:
  "selectProvider pm now rm skip =
     (case sort_by (\<lambda>a b. lru_compare (snd a) (snd b))
             (filter (\<lambda>(i, p). qualifies rm p) (enumerate 0 (providerStatus pm))) of
        [] \<Rightarrow> (None, pm)
      | (i, selected) # _ \<Rightarrow>
          if \<not> skip then
            (Some (i, selected\<lparr>lastUsed := Some now, usageCount := js_increment (usageCount selected)\<rparr>),
             debouncedSave (pm\<lparr>providerStatus :=
               (providerStatus pm)[i := selected\<lparr>lastUsed := Some now,
                                                usageCount := js_increment (usageCount selected)\<rparr>]\<rparr>))
          else (Some (i, selected), pm))"
proof (cases "truthy rm")
  case True
  from select_candidates [of rm "providerStatus pm"] True
  have c: "filter (\<lambda>(i, p). supportsModel (the rm) p)
           (filter (\<lambda>(i, p). isHealthy p \<and> \<not> isDisabled p) (enumerate 0 (providerStatus pm)))
         = filter (\<lambda>(i, p). qualifies rm p) (enumerate 0 (providerStatus pm))" by simp
  show ?thesis
    unfolding selectProvider_def Let_def c
    by (cases "filter (\<lambda>(i, p). qualifies rm p) (enumerate 0 (providerStatus pm)) = []")
       (simp_all add: True sort_by_def)
next
  case False
  from select_candidates [of rm "providerStatus pm"] False
  have c: "filter (\<lambda>(i, p). isHealthy p \<and> \<not> isDisabled p) (enumerate 0 (providerStatus pm))
         = filter (\<lambda>(i, p). qualifies rm p) (enumerate 0 (providerStatus pm))" by simp
  show ?thesis
    unfolding selectProvider_def Let_def c
    by (simp add: False)
qed

lemma candidate_mem:
  "(i, p) \<in> set (filter (\<lambda>(i, p). qualifies rm p) (enumerate 0 ps))
     \<longleftrightarrow> i < length ps \<and> p = ps ! i \<and> qualifies rm p"
  by (auto simp: in_set_enumerate_eq)

lemma candidates_empty:
  "filter (\<lambda>(i, p). qualifies rm p) (enumerate 0 ps) = [] \<longleftrightarrow> (\<forall>p\<in>set ps. \<not> qualifies rm p)"
proof
  assume e: "filter (\<lambda>(i, p). qualifies rm p) (enumerate 0 ps) = []"
  show "\<forall>p\<in>set ps. \<not> qualifies rm p"
  proof
    fix p assume "p \<in> set ps"
    then obtain i where "i < length ps" "p = ps ! i" by (auto simp: in_set_conv_nth)
    show "\<not> qualifies rm p"
    proof
      assume "qualifies rm p"
      with \<open>i < length ps\<close> \<open>p = ps ! i\<close> candidate_mem [of i p rm ps]
      have "(i, p) \<in> set (filter (\<lambda>(i, p). qualifies rm p) (enumerate 0 ps))"
        by blast
      with e show False by simp
    qed
  qed
next
  assume "\<forall>p\<in>set ps. \<not> qualifies rm p"
  then show "filter (\<lambda>(i, p). qualifies rm p) (enumerate 0 ps) = []"
    by (auto simp: filter_empty_conv in_set_enumerate_eq)
qed

lemma sorted_candidates_head:
  assumes "sort_by (\<lambda>a b. lru_compare (snd a) (snd b))
             (filter (\<lambda>(i, p). qualifies rm p) (enumerate 0 ps)) = (i, sel) # rest"
  shows "i < length ps \<and> sel = ps ! i \<and> qualifies rm sel
         \<and> (\<forall>p\<in>set ps. qualifies rm p \<longrightarrow> lru_le sel p)"
proof -
  let ?c = "filter (\<lambda>(i, p). qualifies rm p) (enumerate 0 ps)"
  let ?cmp = "\<lambda>a b :: nat \<times> account. lru_compare (snd a) (snd b)"
  have "(i, sel) \<in> set (sort_by ?cmp ?c)" using assms by simp
  then have m: "(i, sel) \<in> set ?c" by (simp only: set_sort_by)
  with candidate_mem [of i sel rm ps]
  have a: "i < length ps \<and> sel = ps ! i \<and> qualifies rm sel" by blast
  have total: "\<And>a b. ?cmp a b \<le> 0 \<or> ?cmp b a \<le> 0"
    using lru_le_total by (simp add: lru_compare_le)
  have trans: "\<And>a b c. ?cmp a b \<le> 0 \<Longrightarrow> ?cmp b c \<le> 0 \<Longrightarrow> ?cmp a c \<le> 0"
    using lru_le_trans by (simp add: lru_compare_le)
  from sort_by_head_min [of ?cmp, OF total trans assms]
  have mn: "\<forall>x\<in>set ?c. lru_le sel (snd x)" by (simp add: lru_compare_le)
  have "\<forall>p\<in>set ps. qualifies rm p \<longrightarrow> lru_le sel p"
  proof (intro ballI impI)
    fix p assume "p \<in> set ps" and q: "qualifies rm p"
    then obtain j where "j < length ps" "p = ps ! j" by (auto simp: in_set_conv_nth)
    with q candidate_mem [of j p rm ps] have "(j, p) \<in> set ?c" by blast
    with mn show "lru_le sel p" by fastforce
  qed
  with a show ?thesis by blast
qed


lemma selectProvider_None:
  "fst (selectProvider pm now rm skip) = None \<longleftrightarrow> (\<forall>p\<in>set (providerStatus pm). \<not> qualifies rm p)"
proof (cases "sort_by (\<lambda>a b. lru_compare (snd a) (snd b))
          (filter (\<lambda>(i, p). qualifies rm p) (enumerate 0 (providerStatus pm)))")
  case Nil
  then have "set (filter (\<lambda>(i, p). qualifies rm p) (enumerate 0 (providerStatus pm))) = {}"
    using set_sort_by [of "\<lambda>a b. lru_compare (snd a) (snd b)"
        "filter (\<lambda>(i, p). qualifies rm p) (enumerate 0 (providerStatus pm))"] by simp
  then have "filter (\<lambda>(i, p). qualifies rm p) (enumerate 0 (providerStatus pm)) = []"
    by (simp only: set_empty)
  then have "\<forall>p\<in>set (providerStatus pm). \<not> qualifies rm p"
    by (simp only: candidates_empty)
  moreover have "fst (selectProvider pm now rm skip) = None"
    by (simp add: selectProvider_unfold Nil)
  ultimately show ?thesis by blast
next
  case (Cons x rest)
  obtain i sel where x: "x = (i, sel)" by (cases x)
  from sorted_candidates_head [OF Cons [unfolded x]]
  have "i < length (providerStatus pm)" "sel = providerStatus pm ! i" "qualifies rm sel"
    by blast+
  then have "\<not> (\<forall>p\<in>set (providerStatus pm). \<not> qualifies rm p)"
    using nth_mem by blast
  moreover have "fst (selectProvider pm now rm skip) \<noteq> None"
    by (simp add: selectProvider_unfold Cons x)
  ultimately show ?thesis by blast
qed

lemma selectProvider_Some:
  assumes "fst (selectProvider pm now rm skip) = Some (i, a)"
  shows "i < length (providerStatus pm)
       \<and> qualifies rm (providerStatus pm ! i)
       \<and> (\<forall>p\<in>set (providerStatus pm). qualifies rm p \<longrightarrow> lru_le (providerStatus pm ! i) p)
       \<and> a = (if skip then providerStatus pm ! i
              else (providerStatus pm ! i)\<lparr>lastUsed := Some now,
                     usageCount := js_increment (usageCount (providerStatus pm ! i))\<rparr>)
       \<and> snd (selectProvider pm now rm skip)
           = (if skip then pm
              else debouncedSave (pm\<lparr>providerStatus := (providerStatus pm)[i := a]\<rparr>))"
proof (cases "sort_by (\<lambda>a b. lru_compare (snd a) (snd b))
          (filter (\<lambda>(i, p). qualifies rm p) (enumerate 0 (providerStatus pm)))")
  case Nil
  then have "fst (selectProvider pm now rm skip) = None"
    by (simp add: selectProvider_unfold)
  with assms show ?thesis by simp
next
  case (Cons x rest)
  obtain j sel where x: "x = (j, sel)" by (cases x)
  from sorted_candidates_head [OF Cons [unfolded x]]
  have h: "j < length (providerStatus pm)" "sel = providerStatus pm ! j" "qualifies rm sel"
    "\<forall>p\<in>set (providerStatus pm). qualifies rm p \<longrightarrow> lru_le sel p"
    by blast+
  have r: "selectProvider pm now rm skip =
     (if \<not> skip then
        (Some (j, sel\<lparr>lastUsed := Some now, usageCount := js_increment (usageCount sel)\<rparr>),
         debouncedSave (pm\<lparr>providerStatus :=
           (providerStatus pm)[j := sel\<lparr>lastUsed := Some now, usageCount := js_increment (usageCount sel)\<rparr>]\<rparr>))
      else (Some (j, sel), pm))"
    by (simp add: selectProvider_unfold Cons x)
  from assms r have ij: "i = j" by (simp split: if_splits)
  from assms r have a: "a = (if skip then sel
       else sel\<lparr>lastUsed := Some now, usageCount := js_increment (usageCount sel)\<rparr>)"
    by (simp split: if_splits)
  from r a have s: "snd (selectProvider pm now rm skip)
           = (if skip then pm
              else debouncedSave (pm\<lparr>providerStatus := (providerStatus pm)[j := a]\<rparr>))"
    by simp
  from h ij a s show ?thesis by simp
qed

text \<open>
  Claim C2, as amended. \<^verbatim>\<open>selectProvider\<close> returns \<^verbatim>\<open>null\<close> exactly when no account is
  healthy, not disabled and (for a given, that is truthy, \<^verbatim>\<open>requestedModel\<close>) free of the
  model in its \<^verbatim>\<open>notSupportedModels\<close>. Otherwise the returned account qualifies and is a
  minimum of the qualifying accounts under the ascending (\<^verbatim>\<open>lastUsed\<close> with \<^verbatim>\<open>null\<close> as
  0, \<^verbatim>\<open>usageCount\<close>) order; unless \<^verbatim>\<open>skipUsageCount\<close> is set, its \<^verbatim>\<open>lastUsed\<close> becomes
  the clock reading and its \<^verbatim>\<open>usageCount\<close> is the result of \<^verbatim>\<open>usageCount++\<close>, in the
  returned object and in the pool alike; that is one more than before whenever the count
  lies in the range from \<open>-2^53\<close> to \<open>2^53 - 1\<close>, where the addition is exact. An account
  whose \<^verbatim>\<open>notSupportedModels\<close> holds the requested model, in particular one with
  \<^verbatim>\<open>notSupportedModels = [m]\<close>, is never returned for \<^verbatim>\<open>m\<close>.
\<close>

theorem selectProvider_lru:
  "(fst (selectProvider pm now rm skip) = None
      \<longleftrightarrow> (\<forall>p\<in>set (providerStatus pm). \<not> qualifies rm p))
   \<and> (\<forall>i a. fst (selectProvider pm now rm skip) = Some (i, a) \<longrightarrow>
        i < length (providerStatus pm)
        \<and> isHealthy (providerStatus pm ! i) \<and> \<not> isDisabled (providerStatus pm ! i)
        \<and> qualifies rm (providerStatus pm ! i)
        \<and> (\<forall>p\<in>set (providerStatus pm). qualifies rm p \<longrightarrow> lru_le (providerStatus pm ! i) p)
        \<and> a = (if skip then providerStatus pm ! i
               else (providerStatus pm ! i)\<lparr>lastUsed := Some now,
                      usageCount := js_increment (usageCount (providerStatus pm ! i))\<rparr>)
        \<and> (\<not> skip \<and> - (2 ^ 53) \<le> usageCount (providerStatus pm ! i)
               \<and> usageCount (providerStatus pm ! i) < 2 ^ 53 \<longrightarrow>
             lastUsed a = Some now \<and> usageCount a = usageCount (providerStatus pm ! i) + 1)
        \<and> providerStatus (snd (selectProvider pm now rm skip)) ! i = a
        \<and> (truthy rm \<longrightarrow>
             (\<forall>ms. notSupportedModels (providerStatus pm ! i) = Some ms \<longrightarrow> the rm \<notin> set ms)
             \<and> notSupportedModels (providerStatus pm ! i) \<noteq> Some [the rm]))"
proof -
  have n: "fst (selectProvider pm now rm skip) = None
      \<longleftrightarrow> (\<forall>p\<in>set (providerStatus pm). \<not> qualifies rm p)"
    by (rule selectProvider_None)
  have s: "fst (selectProvider pm now rm skip) = Some (i, a) \<Longrightarrow>
        i < length (providerStatus pm)
        \<and> isHealthy (providerStatus pm ! i) \<and> \<not> isDisabled (providerStatus pm ! i)
        \<and> qualifies rm (providerStatus pm ! i)
        \<and> (\<forall>p\<in>set (providerStatus pm). qualifies rm p \<longrightarrow> lru_le (providerStatus pm ! i) p)
        \<and> a = (if skip then providerStatus pm ! i
               else (providerStatus pm ! i)\<lparr>lastUsed := Some now,
                      usageCount := js_increment (usageCount (providerStatus pm ! i))\<rparr>)
        \<and> (\<not> skip \<and> - (2 ^ 53) \<le> usageCount (providerStatus pm ! i)
               \<and> usageCount (providerStatus pm ! i) < 2 ^ 53 \<longrightarrow>
             lastUsed a = Some now \<and> usageCount a = usageCount (providerStatus pm ! i) + 1)
        \<and> providerStatus (snd (selectProvider pm now rm skip)) ! i = a
        \<and> (truthy rm \<longrightarrow>
             (\<forall>ms. notSupportedModels (providerStatus pm ! i) = Some ms \<longrightarrow> the rm \<notin> set ms)
             \<and> notSupportedModels (providerStatus pm ! i) \<noteq> Some [the rm])" for i a
  proof -
    assume s: "fst (selectProvider pm now rm skip) = Some (i, a)"
    note h = selectProvider_Some [OF s]
    from h have c1: "i < length (providerStatus pm)" by blast
    from h have q: "qualifies rm (providerStatus pm ! i)" by blast
    from q have c2: "isHealthy (providerStatus pm ! i)" by (simp add: qualifies_def)
    from q have c3: "\<not> isDisabled (providerStatus pm ! i)" by (simp add: qualifies_def)
    from h have c4: "\<forall>p\<in>set (providerStatus pm). qualifies rm p \<longrightarrow> lru_le (providerStatus pm ! i) p"
      by blast
    from h have c5: "a = (if skip then providerStatus pm ! i
               else (providerStatus pm ! i)\<lparr>lastUsed := Some now,
                      usageCount := js_increment (usageCount (providerStatus pm ! i))\<rparr>)" by blast
    have c5': "\<not> skip \<and> - (2 ^ 53) \<le> usageCount (providerStatus pm ! i)
               \<and> usageCount (providerStatus pm ! i) < 2 ^ 53 \<longrightarrow>
             lastUsed a = Some now \<and> usageCount a = usageCount (providerStatus pm ! i) + 1"
      by (simp add: c5 js_increment_exact)
    from h have "snd (selectProvider pm now rm skip)
           = (if skip then pm
              else debouncedSave (pm\<lparr>providerStatus := (providerStatus pm)[i := a]\<rparr>))" by blast
    with c1 c5 have c6: "providerStatus (snd (selectProvider pm now rm skip)) ! i = a"
      by (simp add: debouncedSave_def)
    have c7: "truthy rm \<longrightarrow>
             (\<forall>ms. notSupportedModels (providerStatus pm ! i) = Some ms \<longrightarrow> the rm \<notin> set ms)
             \<and> notSupportedModels (providerStatus pm ! i) \<noteq> Some [the rm]"
      using q by (auto simp: qualifies_def)
    from c1 c2 c3 q c4 c5 c5' c6 c7 show ?thesis by blast
  qed
  from n s show ?thesis by blast
qed

text \<open>
  The theorem at a pool of three accounts: the first, never used, excludes model \<^verbatim>\<open>m\<close>;
  the second was last used at 5, the third at 3. A request for \<^verbatim>\<open>m\<close> at time 9 returns
  the third.
\<close>

theorem selectProvider_lru_witness:
  "fst (selectProvider three_pool 9 (Some ''m'') False)
     = Some (2, (initial_account ''c'')\<lparr>lastUsed := Some 9, usageCount := 3\<rparr>)
   \<and> truthy (Some ''m'')
   \<and> providerStatus three_pool ! 1 \<in> set (providerStatus three_pool)
   \<and> qualifies (Some ''m'') (providerStatus three_pool ! 1)
   \<and> lru_le (providerStatus three_pool ! 2) (providerStatus three_pool ! 1)
   \<and> notSupportedModels (providerStatus three_pool ! 0) = Some [''m'']
   \<and> \<not> qualifies (Some ''m'') (providerStatus three_pool ! 0)
   \<and> providerStatus (snd (selectProvider three_pool 9 (Some ''m'') False)) ! 2
       = (initial_account ''c'')\<lparr>lastUsed := Some 9, usageCount := 3\<rparr>
   \<and> - (2 ^ 53) \<le> usageCount (providerStatus three_pool ! 2)
   \<and> usageCount (providerStatus three_pool ! 2) < 2 ^ 53
   \<and> usageCount ((initial_account ''c'')\<lparr>lastUsed := Some 9, usageCount := 3\<rparr>)
       = usageCount (providerStatus three_pool ! 2) + 1"
proof -
  have r: "fst (selectProvider three_pool 9 (Some ''m'') False)
     = Some (2, (initial_account ''c'')\<lparr>lastUsed := Some 9, usageCount := 3\<rparr>)"
    by (simp add: selectProvider_def three_pool_def initial_account_def truthy_def
        supportsModel_def sort_by_def lru_compare_def lastUsedTime_def debouncedSave_def
        Let_def numeral_2_eq_2)
  have b: "- (2 ^ 53) \<le> usageCount (providerStatus three_pool ! 2)"
    "usageCount (providerStatus three_pool ! 2) < 2 ^ 53"
    by (simp_all add: three_pool_def initial_account_def)
  have t: "truthy (Some ''m'')" by (simp add: truthy_def)
  have m: "providerStatus three_pool ! 1 \<in> set (providerStatus three_pool)"
    by (simp add: three_pool_def)
  have q: "qualifies (Some ''m'') (providerStatus three_pool ! 1)"
    by (simp add: qualifies_def three_pool_def initial_account_def truthy_def)
  have n: "notSupportedModels (providerStatus three_pool ! 0) = Some [''m'']"
    by (simp add: three_pool_def initial_account_def)
  have nq: "\<not> qualifies (Some ''m'') (providerStatus three_pool ! 0)"
    by (simp add: qualifies_def three_pool_def initial_account_def truthy_def)
  from selectProvider_lru [of three_pool 9 "Some ''m''" False] r t m q n nq b
  show ?thesis by blast
qed

text \<open>
  The claim as stated fails at a counter of \<open>2^53\<close>: the selected account keeps
  \<^verbatim>\<open>usageCount = 9007199254740992\<close>, it is not incremented by one.
\<close>

theorem selectProvider_increment_counterexample:
  "fst (selectProvider saturated_pool 9 None False)
     = Some (0, (initial_account ''a'')\<lparr>lastUsed := Some 9, usageCount := 9007199254740992\<rparr>)
   \<and> usageCount (providerStatus saturated_pool ! 0) = 9007199254740992
   \<and> usageCount (providerStatus (snd (selectProvider saturated_pool 9 None False)) ! 0)
       = 9007199254740992
   \<and> usageCount (providerStatus (snd (selectProvider saturated_pool 9 None False)) ! 0)
       \<noteq> usageCount (providerStatus saturated_pool ! 0) + 1"
  by (simp add: selectProvider_def saturated_pool_def initial_account_def truthy_def
      sort_by_def debouncedSave_def js_increment_def Let_def)

subsection \<open>Frame of a selection\<close>

text \<open>
  Claim C9. A call to \<^verbatim>\<open>selectProvider\<close> keeps the length of the pool and its error
  budget; every account other than the returned one is unchanged; the returned account
  differs from its state before the call at most in \<^verbatim>\<open>lastUsed\<close> and \<^verbatim>\<open>usageCount\<close>;
  and when \<^verbatim>\<open>skipUsageCount\<close> is set or \<^verbatim>\<open>null\<close> is returned the manager is unchanged
  altogether.
\<close>

theorem selectProvider_frame:
  "length (providerStatus (snd (selectProvider pm now rm skip))) = length (providerStatus pm)
   \<and> maxErrorCount (snd (selectProvider pm now rm skip)) = maxErrorCount pm
   \<and> (\<forall>j<length (providerStatus pm). (\<forall>a. fst (selectProvider pm now rm skip) \<noteq> Some (j, a)) \<longrightarrow>
         providerStatus (snd (selectProvider pm now rm skip)) ! j = providerStatus pm ! j)
   \<and> (\<forall>i a. fst (selectProvider pm now rm skip) = Some (i, a) \<longrightarrow>
         providerStatus (snd (selectProvider pm now rm skip)) ! i
           = (providerStatus pm ! i)\<lparr>lastUsed := lastUsed a, usageCount := usageCount a\<rparr>)
   \<and> (skip \<or> fst (selectProvider pm now rm skip) = None \<longrightarrow>
         snd (selectProvider pm now rm skip) = pm)"
proof (cases "fst (selectProvider pm now rm skip)")
  case None
  then have "snd (selectProvider pm now rm skip) = pm"
    by (simp add: selectProvider_unfold split: list.splits prod.splits if_splits)
  with None show ?thesis by simp
next
  case (Some x)
  obtain i a where x: "x = (i, a)" by (cases x)
  note h = selectProvider_Some [OF Some [unfolded x]]
  from h have s: "snd (selectProvider pm now rm skip)
           = (if skip then pm
              else debouncedSave (pm\<lparr>providerStatus := (providerStatus pm)[i := a]\<rparr>))" by simp
  from h have i: "i < length (providerStatus pm)" by simp
  from h have a: "a = (if skip then providerStatus pm ! i
              else (providerStatus pm ! i)\<lparr>lastUsed := Some now,
                     usageCount := js_increment (usageCount (providerStatus pm ! i))\<rparr>)" by simp
  have p1: "length (providerStatus (snd (selectProvider pm now rm skip))) = length (providerStatus pm)"
    by (simp add: s debouncedSave_def)
  have p2: "maxErrorCount (snd (selectProvider pm now rm skip)) = maxErrorCount pm"
    by (simp add: s debouncedSave_def)
  have p3: "\<forall>j<length (providerStatus pm). (\<forall>a. fst (selectProvider pm now rm skip) \<noteq> Some (j, a)) \<longrightarrow>
         providerStatus (snd (selectProvider pm now rm skip)) ! j = providerStatus pm ! j"
    by (auto simp: Some x s debouncedSave_def)
  have p4: "\<forall>i' a'. fst (selectProvider pm now rm skip) = Some (i', a') \<longrightarrow>
         providerStatus (snd (selectProvider pm now rm skip)) ! i'
           = (providerStatus pm ! i')\<lparr>lastUsed := lastUsed a', usageCount := usageCount a'\<rparr>"
    using i a by (auto simp: Some x s debouncedSave_def)
  have p5: "skip \<or> fst (selectProvider pm now rm skip) = None \<longrightarrow>
         snd (selectProvider pm now rm skip) = pm"
    using s Some by auto
  from p1 p2 p3 p4 p5 show ?thesis by blast
qed

theorem selectProvider_frame_witness:
  "fst (selectProvider three_pool 9 (Some ''m'') False)
     = Some (2, (initial_account ''c'')\<lparr>lastUsed := Some 9, usageCount := 3\<rparr>)
   \<and> (1::nat) < length (providerStatus three_pool)
   \<and> providerStatus (snd (selectProvider three_pool 9 (Some ''m'') False)) ! 1
       = providerStatus three_pool ! 1
   \<and> providerStatus (snd (selectProvider three_pool 9 (Some ''m'') False)) ! 2
       = (providerStatus three_pool ! 2)\<lparr>lastUsed := Some 9, usageCount := 3\<rparr>
   \<and> snd (selectProvider three_pool 9 (Some ''m'') True) = three_pool
   \<and> fst (selectProvider single_pool 9 (Some ''m'') False) \<noteq> None
   \<and> fst (selectProvider (single_pool\<lparr>providerStatus := []\<rparr>) 9 None False) = None
   \<and> snd (selectProvider (single_pool\<lparr>providerStatus := []\<rparr>) 9 None False)
       = single_pool\<lparr>providerStatus := []\<rparr>"
proof -
  have r: "fst (selectProvider three_pool 9 (Some ''m'') False)
     = Some (2, (initial_account ''c'')\<lparr>lastUsed := Some 9, usageCount := 3\<rparr>)"
    by (simp add: selectProvider_def three_pool_def initial_account_def truthy_def
        supportsModel_def sort_by_def lru_compare_def lastUsedTime_def debouncedSave_def
        Let_def numeral_2_eq_2)
  have l: "(1::nat) < length (providerStatus three_pool)" by (simp add: three_pool_def)
  have n1: "\<forall>a. fst (selectProvider three_pool 9 (Some ''m'') False) \<noteq> Some (1, a)"
    by (simp add: r)
  have s: "fst (selectProvider single_pool 9 (Some ''m'') False) \<noteq> None"
    by (simp add: selectProvider_def single_pool_def initial_account_def truthy_def
        supportsModel_def sort_by_def lru_compare_def lastUsedTime_def debouncedSave_def
        Let_def numeral_2_eq_2)
  have e: "fst (selectProvider (single_pool\<lparr>providerStatus := []\<rparr>) 9 None False) = None"
    by (simp add: selectProvider_def truthy_def sort_by_def)
  from selectProvider_frame [of three_pool 9 "Some ''m''" False]
    selectProvider_frame [of three_pool 9 "Some ''m''" True]
    selectProvider_frame [of "single_pool\<lparr>providerStatus := []\<rparr>" 9 None False]
    r l n1 s e
  show ?thesis by simp
qed


section \<open>Properties of the token refresh\<close>

text \<open>
  Claim C6 does not hold of the code. With a 2xx refresh response that carries
  \<^verbatim>\<open>accessToken\<close> and no \<^verbatim>\<open>expiresIn\<close>, \<^verbatim>\<open>initializeAuth\<close> throws
  \<^verbatim>\<open>Token refresh failed: Invalid time value\<close>: the new tokens are already stored in
  the manager, \<^verbatim>\<open>expiresAt\<close> keeps its previous value, and nothing is written to the
  token file.
\<close>

theorem refresh_without_expiresIn_throws:
  "thrown (initializeAuth manager_with_tokens True env_without_expiresIn)
     = Some ''Token refresh failed: Invalid time value''
   \<and> expiresAt (manager (initializeAuth manager_with_tokens True env_without_expiresIn))
     = expiresAt manager_with_tokens
   \<and> accessToken (manager (initializeAuth manager_with_tokens True env_without_expiresIn))
     = Some ''A2''
   \<and> refreshToken (manager (initializeAuth manager_with_tokens True env_without_expiresIn))
     = Some ''R2''
   \<and> written (initializeAuth manager_with_tokens True env_without_expiresIn) = None"
  by (simp add: initializeAuth_def refresh_tokens_def new_expiry_def apply_credentials_def
      load_credentials_def manager_with_tokens_def env_without_expiresIn_def
      response_without_expiresIn_def or_else_def or_else_instant_def truthy_def
      empty_credentials_def AUTH_METHOD_SOCIAL_def Let_def)


section \<open>Properties of the stream parser\<close>

lemma parse_loop_spans:
  "fst (parse_loop remaining searchStart events)
     = events @ concat (map events_of_span (extracted_spans remaining searchStart))"
proof (induction remaining searchStart events rule: parse_loop.induct)
  case (1 remaining searchStart events)
  show ?case
  proof (cases "find_json_start remaining searchStart")
    case None
    then show ?thesis
      by (subst parse_loop.simps, subst extracted_spans.simps) simp
  next
    case s: (Some jsonStart)
    show ?thesis
    proof (cases "find_json_end (drop jsonStart remaining) jsonStart 0 False False")
      case None
      with s show ?thesis
        by (subst parse_loop.simps, subst extracted_spans.simps) simp
    next
      case e: (Some jsonEnd)
      show ?thesis
      proof (cases "jsonEnd + 1 \<ge> length remaining")
        case True
        with s e show ?thesis
          by (subst parse_loop.simps, subst extracted_spans.simps) simp
      next
        case False
        from "1.IH" [OF s e False]
        have "fst (parse_loop remaining (jsonEnd + 1)
                (events @ events_of_span (substring remaining jsonStart (jsonEnd + 1))))
              = (events @ events_of_span (substring remaining jsonStart (jsonEnd + 1)))
                @ concat (map events_of_span (extracted_spans remaining (jsonEnd + 1)))" .
        with s e False show ?thesis
          by (subst parse_loop.simps, subst extracted_spans.simps) simp
      qed
    qed
  qed
qed

lemma parser_events_spans:
  "fst (parseAwsEventStreamBuffer buffer) = concat (map events_of_span (extracted_spans buffer 0))"
proof (cases "parse_loop buffer 0 []")
  case (fields events remaining searchStart)
  with parse_loop_spans [of buffer 0 "[]"] show ?thesis
    by (simp add: parseAwsEventStreamBuffer_def)
qed


subsection \<open>Incremental parsing\<close>

text \<open>
  Claim C3 does not hold of the code. Take the prefix
  \<^verbatim>\<open>{"content":"a"}{"content":"b\<close> of the stream \<^verbatim>\<open>{"content":"a"}{"content":"b"}\<close>.
  The parser emits the first event and returns an empty \<^verbatim>\<open>remaining\<close>: the second,
  incomplete payload is first kept from its opening brace on and then cut again by
  \<^verbatim>\<open>searchStart\<close>, the position after the first payload. Feeding \<^verbatim>\<open>remaining\<close>
  followed by the continuation \<^verbatim>\<open>"}\<close> emits nothing, while one pass over the whole
  stream emits both events. The same happens when frame headers stand between the
  payloads.
\<close>

theorem incomplete_payload_lost:
  \<open>parseAwsEventStreamBuffer ''{"content":"a"}{"content":"b''
     = ([ContentEvent (JString ''a'')], [])
   \<and> parseAwsEventStreamBuffer
        (snd (parseAwsEventStreamBuffer ''{"content":"a"}{"content":"b'') @ ''"}'')
     = ([], ''"}'')
   \<and> parseAwsEventStreamBuffer (''{"content":"a"}{"content":"b'' @ ''"}'')
     = ([ContentEvent (JString ''a''), ContentEvent (JString ''b'')], [])
   \<and> fst (parseAwsEventStreamBuffer ''{"content":"a"}{"content":"b'')
       @ fst (parseAwsEventStreamBuffer
               (snd (parseAwsEventStreamBuffer ''{"content":"a"}{"content":"b'') @ ''"}''))
     \<noteq> fst (parseAwsEventStreamBuffer (''{"content":"a"}{"content":"b'' @ ''"}''))
   \<and> parseAwsEventStreamBuffer
        '':message-typeevent{"content":"Hi"}:message-typeevent{"content":"there''
     = ([ContentEvent (JString ''Hi'')], [])
   \<and> parseAwsEventStreamBuffer
        ('':message-typeevent{"content":"Hi"}:message-typeevent{"content":"there'' @ ''"}'')
     = ([ContentEvent (JString ''Hi''), ContentEvent (JString ''there'')], [])\<close>
  by code_simp

subsection \<open>Classification of payloads\<close>

lemma classify_content:
  "(\<exists>d. classify p = Some (ContentEvent d))
     \<longleftrightarrow> get_prop p ''content'' \<noteq> None \<and> \<not> prop_truthy (get_prop p ''followupPrompt'')"
  by (auto simp: classify_def)

lemma classify_toolUse:
  "(\<exists>n i inp st. classify p = Some (ToolUseEvent n i inp st))
     \<longleftrightarrow> \<not> (get_prop p ''content'' \<noteq> None \<and> \<not> prop_truthy (get_prop p ''followupPrompt''))
         \<and> prop_truthy (get_prop p ''name'') \<and> prop_truthy (get_prop p ''toolUseId'')"
  by (auto simp: classify_def)

lemma classify_toolUseInput:
  "(\<exists>d. classify p = Some (ToolUseInputEvent d))
     \<longleftrightarrow> \<not> (get_prop p ''content'' \<noteq> None \<and> \<not> prop_truthy (get_prop p ''followupPrompt''))
         \<and> \<not> (prop_truthy (get_prop p ''name'') \<and> prop_truthy (get_prop p ''toolUseId''))
         \<and> get_prop p ''input'' \<noteq> None \<and> \<not> prop_truthy (get_prop p ''name'')"
  by (auto simp: classify_def)

lemma classify_toolUseStop:
  "(\<exists>d. classify p = Some (ToolUseStopEvent d))
     \<longleftrightarrow> \<not> (get_prop p ''content'' \<noteq> None \<and> \<not> prop_truthy (get_prop p ''followupPrompt''))
         \<and> \<not> (prop_truthy (get_prop p ''name'') \<and> prop_truthy (get_prop p ''toolUseId''))
         \<and> \<not> (get_prop p ''input'' \<noteq> None \<and> \<not> prop_truthy (get_prop p ''name''))
         \<and> get_prop p ''stop'' \<noteq> None"
  by (auto simp: classify_def)

lemma classify_followup_only:
  "prop_truthy (get_prop p ''followupPrompt'') \<Longrightarrow> get_prop p ''name'' = None \<Longrightarrow>
   get_prop p ''input'' = None \<Longrightarrow> get_prop p ''stop'' = None \<Longrightarrow> classify p = None"
  by (simp add: classify_def prop_truthy_def)

text \<open>
  Claim C5, as amended. The events of a buffer are, in order, the events of the spans
  the parser extracts; a span that \<^verbatim>\<open>JSON.parse\<close> rejects gives none, and a parsed
  payload gives at most one, chosen by the first rule that applies: a \<^verbatim>\<open>content\<close> event
  iff it has a \<^verbatim>\<open>content\<close> field and its \<^verbatim>\<open>followupPrompt\<close> is absent or falsy;
  otherwise a \<^verbatim>\<open>toolUse\<close> event iff \<^verbatim>\<open>name\<close> and \<^verbatim>\<open>toolUseId\<close> are both truthy;
  otherwise a \<^verbatim>\<open>toolUseInput\<close> event iff it has an \<^verbatim>\<open>input\<close> field and \<^verbatim>\<open>name\<close> is
  absent or falsy; otherwise a \<^verbatim>\<open>toolUseStop\<close> event iff it has a \<^verbatim>\<open>stop\<close> field. A
  payload with a truthy \<^verbatim>\<open>followupPrompt\<close> and no \<^verbatim>\<open>name\<close>, \<^verbatim>\<open>input\<close> or \<^verbatim>\<open>stop\<close>
  field gives no event.
\<close>

theorem payload_classification:
  "fst (parseAwsEventStreamBuffer buffer) = concat (map events_of_span (extracted_spans buffer 0))
   \<and> events_of_span jsonStr
       = (case JSON_parse jsonStr of None \<Rightarrow> []
          | Some parsed \<Rightarrow> (case classify parsed of None \<Rightarrow> [] | Some e \<Rightarrow> [e]))
   \<and> ((\<exists>d. classify p = Some (ContentEvent d))
        \<longleftrightarrow> get_prop p ''content'' \<noteq> None \<and> \<not> prop_truthy (get_prop p ''followupPrompt''))
   \<and> ((\<exists>n i inp st. classify p = Some (ToolUseEvent n i inp st))
        \<longleftrightarrow> \<not> (get_prop p ''content'' \<noteq> None \<and> \<not> prop_truthy (get_prop p ''followupPrompt''))
            \<and> prop_truthy (get_prop p ''name'') \<and> prop_truthy (get_prop p ''toolUseId''))
   \<and> ((\<exists>d. classify p = Some (ToolUseInputEvent d))
        \<longleftrightarrow> \<not> (get_prop p ''content'' \<noteq> None \<and> \<not> prop_truthy (get_prop p ''followupPrompt''))
            \<and> \<not> (prop_truthy (get_prop p ''name'') \<and> prop_truthy (get_prop p ''toolUseId''))
            \<and> get_prop p ''input'' \<noteq> None \<and> \<not> prop_truthy (get_prop p ''name''))
   \<and> ((\<exists>d. classify p = Some (ToolUseStopEvent d))
        \<longleftrightarrow> \<not> (get_prop p ''content'' \<noteq> None \<and> \<not> prop_truthy (get_prop p ''followupPrompt''))
            \<and> \<not> (prop_truthy (get_prop p ''name'') \<and> prop_truthy (get_prop p ''toolUseId''))
            \<and> \<not> (get_prop p ''input'' \<noteq> None \<and> \<not> prop_truthy (get_prop p ''name''))
            \<and> get_prop p ''stop'' \<noteq> None)
   \<and> (prop_truthy (get_prop p ''followupPrompt'') \<and> get_prop p ''name'' = None
        \<and> get_prop p ''input'' = None \<and> get_prop p ''stop'' = None
        \<longrightarrow> classify p = None)"
  using parser_events_spans [of buffer] classify_content [of p] classify_toolUse [of p]
    classify_toolUseInput [of p] classify_toolUseStop [of p] classify_followup_only [of p]
  by (simp only: events_of_span_def) blast

text \<open>
  The theorem at the buffer \<^verbatim>\<open>{"content":"x","followupPrompt":"f"}{"stop":true}\<close>: the
  first payload has a truthy \<^verbatim>\<open>followupPrompt\<close> and gives no event, the second gives a
  \<^verbatim>\<open>toolUseStop\<close> event.
\<close>

theorem payload_classification_witness:
  \<open>JSON_parse ''{"content":"x","followupPrompt":"f"}''
     = Some (JObject [(''content'', JString ''x''), (''followupPrompt'', JString ''f'')])
   \<and> prop_truthy (get_prop (JObject [(''content'', JString ''x''), (''followupPrompt'', JString ''f'')])
        ''followupPrompt'')
   \<and> get_prop (JObject [(''content'', JString ''x''), (''followupPrompt'', JString ''f'')]) ''name'' = None
   \<and> get_prop (JObject [(''content'', JString ''x''), (''followupPrompt'', JString ''f'')]) ''input'' = None
   \<and> get_prop (JObject [(''content'', JString ''x''), (''followupPrompt'', JString ''f'')]) ''stop'' = None
   \<and> classify (JObject [(''content'', JString ''x''), (''followupPrompt'', JString ''f'')]) = None
   \<and> extracted_spans ''{"content":"x","followupPrompt":"f"}{"stop":true}'' 0
       = [''{"content":"x","followupPrompt":"f"}'', ''{"stop":true}'']
   \<and> fst (parseAwsEventStreamBuffer ''{"content":"x","followupPrompt":"f"}{"stop":true}'')
       = events_of_span ''{"content":"x","followupPrompt":"f"}'' @ events_of_span ''{"stop":true}''
   \<and> fst (parseAwsEventStreamBuffer ''{"content":"x","followupPrompt":"f"}{"stop":true}'')
       = [ToolUseStopEvent (JBool True)]\<close>
proof -
  let ?p = "JObject [(''content'', JString ''x''), (''followupPrompt'', JString ''f'')]"
  have a: \<open>JSON_parse ''{"content":"x","followupPrompt":"f"}'' = Some ?p\<close>
    by code_simp
  have b: "prop_truthy (get_prop ?p ''followupPrompt'')" by (simp add: prop_truthy_def)
  have c: "get_prop ?p ''name'' = None" "get_prop ?p ''input'' = None" "get_prop ?p ''stop'' = None"
    by simp_all
  have d: \<open>extracted_spans ''{"content":"x","followupPrompt":"f"}{"stop":true}'' 0
       = [''{"content":"x","followupPrompt":"f"}'', ''{"stop":true}'']\<close>
    by code_simp
  have e: \<open>fst (parseAwsEventStreamBuffer ''{"content":"x","followupPrompt":"f"}{"stop":true}'')
       = [ToolUseStopEvent (JBool True)]\<close>
    by code_simp
  from payload_classification
    [of \<open>''{"content":"x","followupPrompt":"f"}{"stop":true}''\<close> "[]" ?p]
  have f: \<open>fst (parseAwsEventStreamBuffer ''{"content":"x","followupPrompt":"f"}{"stop":true}'')
       = concat (map events_of_span
           (extracted_spans ''{"content":"x","followupPrompt":"f"}{"stop":true}'' 0))\<close>
    and g: "prop_truthy (get_prop ?p ''followupPrompt'') \<and> get_prop ?p ''name'' = None
        \<and> get_prop ?p ''input'' = None \<and> get_prop ?p ''stop'' = None
        \<longrightarrow> classify ?p = None"
    by blast+
  from g b c have h: "classify ?p = None" by blast
  from f d have i: \<open>fst (parseAwsEventStreamBuffer ''{"content":"x","followupPrompt":"f"}{"stop":true}'')
       = events_of_span ''{"content":"x","followupPrompt":"f"}'' @ events_of_span ''{"stop":true}''\<close>
    by simp
  from a b c h d i e show ?thesis by blast
qed

text \<open>
  The claim as stated fails: a payload with \<^verbatim>\<open>content\<close>, \<^verbatim>\<open>name\<close> and \<^verbatim>\<open>toolUseId\<close>
  is emitted as a \<^verbatim>\<open>content\<close> event, not as a \<^verbatim>\<open>toolUse\<close> event, and a payload
  carrying \<^verbatim>\<open>followupPrompt\<close> beside \<^verbatim>\<open>name\<close> and \<^verbatim>\<open>toolUseId\<close> is emitted as a
  \<^verbatim>\<open>toolUse\<close> event.
\<close>

theorem payload_classification_counterexample:
  \<open>JSON_parse ''{"content":"hi","name":"n","toolUseId":"t"}''
     = Some (JObject [(''content'', JString ''hi''), (''name'', JString ''n''),
                      (''toolUseId'', JString ''t'')])
   \<and> parseAwsEventStreamBuffer ''{"content":"hi","name":"n","toolUseId":"t"}''
     = ([ContentEvent (JString ''hi'')], [])
   \<and> JSON_parse ''{"name":"n","toolUseId":"t","followupPrompt":"f"}''
     = Some (JObject [(''name'', JString ''n''), (''toolUseId'', JString ''t''),
                      (''followupPrompt'', JString ''f'')])
   \<and> parseAwsEventStreamBuffer ''{"name":"n","toolUseId":"t","followupPrompt":"f"}''
     = ([ToolUseEvent (JString ''n'') (JString ''t'') (JString []) (JBool False)], [])\<close>
  by code_simp


section \<open>Properties of the bracket tool-call recovery\<close>

subsection \<open>Positions of a marker\<close>

lemma index_of_occurs: "index_of pat s = Some i \<Longrightarrow> take (length pat) (drop i s) = pat"
  by (induction s arbitrary: i) (auto split: if_splits)

lemma index_of_first:
  "take (length pat) (drop q s) = pat \<Longrightarrow> q \<le> length s \<Longrightarrow> \<exists>i\<le>q. index_of pat s = Some i"
proof (induction s arbitrary: q)
  case Nil
  then show ?case by auto
next
  case (Cons c cs)
  show ?case
  proof (cases "take (length pat) (c # cs) = pat")
    case True
    then show ?thesis by simp
  next
    case False
    with Cons.prems obtain q' where q: "q = Suc q'" by (cases q) auto
    with Cons.prems have "take (length pat) (drop q' cs) = pat" "q' \<le> length cs" by simp_all
    from Cons.IH [OF this] obtain i where "i \<le> q'" "index_of pat cs = Some i" by blast
    with False q show ?thesis by simp
  qed
qed

lemma indexOf_occurs:
  "indexOf s pat from = Some pos \<Longrightarrow> from \<le> pos \<and> take (length pat) (drop pos s) = pat"
proof -
  assume "indexOf s pat from = Some pos"
  then obtain i where i: "index_of pat (drop from s) = Some i" and p: "pos = from + i"
    by (auto simp: indexOf_def)
  from index_of_occurs [OF i] have "take (length pat) (drop (i + from) s) = pat" by simp
  with p show ?thesis by (simp add: add.commute)
qed

lemma indexOf_first:
  assumes "take (length pat) (drop q s) = pat" "from \<le> q" "q \<le> length s"
  shows "\<exists>pos. indexOf s pat from = Some pos \<and> from \<le> pos \<and> pos \<le> q"
proof -
  from assms have "take (length pat) (drop (q - from) (drop from s)) = pat" by simp
  moreover from assms have "q - from \<le> length (drop from s)" by simp
  ultimately obtain i where "i \<le> q - from" "index_of pat (drop from s) = Some i"
    using index_of_first by blast
  with assms show ?thesis by (auto simp: indexOf_def)
qed

lemma collect_positions_elems:
  "p \<in> set (collect_positions s start) \<Longrightarrow> start \<le> p \<and> take 7 (drop p s) = ''[Called''"
proof (induction s start rule: collect_positions.induct)
  case (1 s start)
  show ?case
  proof (cases "indexOf s ''[Called'' start")
    case None
    with "1.prems" show ?thesis by (simp add: collect_positions.simps)
  next
    case (Some pos)
    from indexOf_occurs [OF Some] have o: "start \<le> pos" "take 7 (drop pos s) = ''[Called''"
      by (simp_all add: eval_nat_numeral)
    from "1.prems" Some have "p = pos \<or> p \<in> set (collect_positions s (pos + 1))"
      by (subst (asm) collect_positions.simps) simp
    then show ?thesis
    proof
      assume "p = pos"
      with o show ?thesis by simp
    next
      assume "p \<in> set (collect_positions s (pos + 1))"
      from "1.IH" [OF Some this] o show ?thesis by simp
    qed
  qed
qed

lemma no_marker_inside:
  assumes nob: "CHR ''['' \<notin> set (tl seg)" and j: "0 < j" "j < length seg"
  shows "take 7 (drop (length pre + j) (pre @ seg @ post)) \<noteq> ''[Called''"
proof
  assume a: "take 7 (drop (length pre + j) (pre @ seg @ post)) = ''[Called''"
  from j have d: "drop (length pre + j) (pre @ seg @ post) = drop j seg @ post" by simp
  from j have "drop j seg = seg ! j # drop (Suc j) seg" by (simp add: Cons_nth_drop_Suc)
  with a d have "seg ! j = CHR ''[''" by simp
  moreover from j have "seg ! j = tl seg ! (j - 1)" by (simp add: nth_tl)
  moreover from j have "j - 1 < length (tl seg)" by simp
  ultimately have "CHR ''['' \<in> set (tl seg)" by (metis nth_mem)
  with nob show False by simp
qed

lemma collect_positions_split:
  assumes occ: "take 7 (seg @ post) = ''[Called''"
    and nob: "CHR ''['' \<notin> set (tl seg)"
    and ne: "seg \<noteq> []"
  shows "start \<le> length pre \<Longrightarrow>
         \<exists>A C. collect_positions (pre @ seg @ post) start = A @ length pre # C
                \<and> (\<forall>c\<in>set C. length pre + length seg \<le> c)"
proof (induction "pre @ seg @ post" start rule: collect_positions.induct)
  case (1 start)
  let ?s = "pre @ seg @ post"
  have o: "take (length ''[Called'') (drop (length pre) ?s) = ''[Called''"
    using occ by (simp add: eval_nat_numeral)
  from ne have len: "length pre \<le> length ?s" by simp
  from indexOf_first [OF o "1.prems" len]
  obtain pos where pos: "indexOf ?s ''[Called'' start = Some pos" "start \<le> pos" "pos \<le> length pre"
    by blast
  have unf: "collect_positions ?s start = pos # collect_positions ?s (pos + 1)"
    using pos(1) by (subst collect_positions.simps) simp
  show ?case
  proof (cases "pos = length pre")
    case True
    have "\<forall>c\<in>set (collect_positions ?s (pos + 1)). length pre + length seg \<le> c"
    proof
      fix c assume c: "c \<in> set (collect_positions ?s (pos + 1))"
      from collect_positions_elems [OF c]
      have g0: "pos + 1 \<le> c" and t: "take 7 (drop c ?s) = ''[Called''" by blast+
      from g0 True have g: "length pre < c" by arith
      show "length pre + length seg \<le> c"
      proof (rule ccontr)
        assume "\<not> length pre + length seg \<le> c"
        with g obtain j where j: "c = length pre + j" "0 < j" "j < length seg"
          by (metis add_diff_inverse_nat less_imp_not_less nat_add_left_cancel_less not_le zero_less_diff)
        from no_marker_inside [OF nob j(2,3), of pre post] t show False
          unfolding j(1) by blast
      qed
    qed
    with unf True have "collect_positions ?s start = [] @ length pre # collect_positions ?s (pos + 1)
        \<and> (\<forall>c\<in>set (collect_positions ?s (pos + 1)). length pre + length seg \<le> c)" by simp
    then show ?thesis by blast
  next
    case False
    with pos have "pos + 1 \<le> length pre" by simp
    from "1.hyps" [OF pos(1) this]
    obtain A C where "collect_positions ?s (pos + 1) = A @ length pre # C"
      "\<forall>c\<in>set C. length pre + length seg \<le> c" by blast
    with unf have "collect_positions ?s start = (pos # A) @ length pre # C
        \<and> (\<forall>c\<in>set C. length pre + length seg \<le> c)" by simp
    then show ?thesis by blast
  qed
qed

lemma process_calls_append:
  "\<exists>X k'. process_calls uuids s (A @ ps) k = X @ process_calls uuids s ps k'"
proof (induction A arbitrary: k)
  case Nil
  have "process_calls uuids s ([] @ ps) k = [] @ process_calls uuids s ps k" by simp
  then show ?case by blast
next
  case (Cons a A)
  from Cons [of k] obtain X1 k1 where
    1: "process_calls uuids s (A @ ps) k = X1 @ process_calls uuids s ps k1" by blast
  from Cons [of "k + 1"] obtain X2 k2 where
    2: "process_calls uuids s (A @ ps) (k + 1) = X2 @ process_calls uuids s ps k2" by blast
  let ?seg = "substring s a (case A @ ps of [] \<Rightarrow> length s | next_pos # _ \<Rightarrow> next_pos)"
  show ?case
  proof (cases "tool_call_text ?seg")
    case None
    with 1 show ?thesis by auto
  next
    case (Some t)
    show ?thesis
    proof (cases "parseSingleToolCall (uuids k) t")
      case None
      with Some 1 show ?thesis by auto
    next
      case (Some tc)
      with \<open>tool_call_text ?seg = Some t\<close> 2
      have "process_calls uuids s ((a # A) @ ps) k = (tc # X2) @ process_calls uuids s ps k2"
        by simp
      then show ?thesis by blast
    qed
  qed
qed


subsection \<open>The get_time segment\<close>

lemma single_get_time_call:
  \<open>parseSingleToolCall u ''[Called get_time with args: {tz: UTC,}]''
     = Some \<lparr>call_id = ''call_'' @ take 8 (filter (\<lambda>c. c \<noteq> CHR ''-'') u),
             call_type = ''function'',
             function_name = ''get_time'',
             function_arguments = ''{"tz":"UTC"}''\<rparr>\<close>
proof -
  have 1: \<open>regex_search namePattern ''[Called get_time with args: {tz: UTC,}]'' = Some [''get_time'']\<close>
    by code_simp
  have 2: \<open>indexOf (map js_lower ''[Called get_time with args: {tz: UTC,}]'')
              (map js_lower ''with args:'') 0 = Some 17\<close>
    by code_simp
  have 3: \<open>lastIndexOf_char ''[Called get_time with args: {tz: UTC,}]'' (CHR '']'') = Some 38\<close>
    by code_simp
  have 4: \<open>JSON_parse (repairJson (js_trim
              (substring ''[Called get_time with args: {tz: UTC,}]'' 27 38)))
            = Some (JObject [(''tz'', JString ''UTC'')])\<close>
    by code_simp
  have 6: \<open>js_trim ''get_time'' = ''get_time''\<close>
    by code_simp
  show ?thesis
    unfolding parseSingleToolCall_def 1 2 3 by (simp add: 4 6 quote_string_def)
qed

lemma get_time_call_text:
  \<open>tool_call_text (''[Called get_time with args: {tz: UTC,}]'' @ rest)
     = Some ''[Called get_time with args: {tz: UTC,}]''\<close>
  by (simp add: tool_call_text_def findMatchingBracket_def substring_def)

lemma repaired_arguments:
  \<open>repairJson ''{tz: UTC,}'' = ''{"tz":"UTC"}''
   \<and> JSON_parse ''{"tz":"UTC"}'' = Some (JObject [(''tz'', JString ''UTC'')])\<close>
  by code_simp

lemma bracket_segment_recovered:
  assumes occ: "take 7 (seg @ post) = ''[Called''"
    and nob: "CHR ''['' \<notin> set (tl seg)"
    and ne: "seg \<noteq> []"
    and tt: "\<And>rest. tool_call_text (seg @ rest) = Some seg"
    and sc: "\<And>u. parseSingleToolCall u seg = Some (mk u)"
  shows "\<exists>X Y k. parseBracketToolCalls uuids (pre @ seg @ post) = Some (X @ mk (uuids k) # Y)"
proof -
  let ?s = "pre @ seg @ post"
  let ?n = "length pre"
  from collect_positions_split [OF occ nob ne, of 0 pre]
  obtain A C where cp: "collect_positions ?s 0 = A @ ?n # C"
    and cb: "\<forall>c\<in>set C. ?n + length seg \<le> c" by blast
  from process_calls_append [of uuids ?s A "?n # C" 0]
  obtain X k' where pa: "process_calls uuids ?s (A @ ?n # C) 0 = X @ process_calls uuids ?s (?n # C) k'"
    by blast
  define lim where "lim = (case C of [] \<Rightarrow> length ?s | next_pos # _ \<Rightarrow> next_pos)"
  have lb: "?n + length seg \<le> lim"
  proof (cases C)
    case Nil
    then show ?thesis by (simp add: lim_def)
  next
    case (Cons c C')
    with cb have "?n + length seg \<le> c" by simp
    with Cons show ?thesis by (simp add: lim_def)
  qed
  from lb have sub: "substring ?s ?n lim = seg @ take (lim - ?n - length seg) post"
    by (simp add: substring_def)
  have t: "tool_call_text (substring ?s ?n lim) = Some seg"
    unfolding sub by (rule tt)
  have pc: "process_calls uuids ?s (?n # C) k' = mk (uuids k') # process_calls uuids ?s C (k' + 1)"
    by (simp only: process_calls.simps lim_def [symmetric] t sc option.simps)
  have calls: "process_calls uuids ?s (collect_positions ?s 0) 0
        = X @ mk (uuids k') # process_calls uuids ?s C (k' + 1)"
    by (simp only: cp pa pc)
  have o: "take (length ''[Called'') (drop ?n ?s) = ''[Called''"
    using occ by (simp add: eval_nat_numeral)
  from ne have "0 \<le> ?n" "?n \<le> length ?s" by simp_all
  from indexOf_first [OF o this] have inc: "indexOf ?s ''[Called'' 0 \<noteq> None" by auto
  from ne have sne: "?s \<noteq> []" by simp
  have "parseBracketToolCalls uuids ?s = Some (X @ mk (uuids k') # process_calls uuids ?s C (k' + 1))"
    using inc sne by (simp add: parseBracketToolCalls_def calls Let_def)
  then show ?thesis by blast
qed

text \<open>
  Claim C7. For every text that contains the segment
  \<^verbatim>\<open>[Called get_time with args: {tz: UTC,}]\<close>, whatever precedes and follows it and
  whatever \<^verbatim>\<open>uuidv4\<close> returns, \<^verbatim>\<open>parseBracketToolCalls\<close> returns an array holding a tool
  call whose \<^verbatim>\<open>function.name\<close> is \<^verbatim>\<open>get_time\<close> and whose \<^verbatim>\<open>function.arguments\<close> is the
  text \<^verbatim>\<open>{"tz":"UTC"}\<close>, which parses to the object with the one property \<^verbatim>\<open>tz\<close> of
  value \<^verbatim>\<open>"UTC"\<close>.
\<close>

theorem bracket_recovery_get_time:
  \<open>\<exists>toolCalls.
      parseBracketToolCalls uuids (pre @ ''[Called get_time with args: {tz: UTC,}]'' @ post)
        = Some toolCalls
      \<and> (\<exists>tc\<in>set toolCalls.
            function_name tc = ''get_time''
            \<and> function_arguments tc = ''{"tz":"UTC"}''
            \<and> JSON_parse (function_arguments tc) = Some (JObject [(''tz'', JString ''UTC'')]))\<close>
proof -
  define mk where \<open>mk = (\<lambda>u. \<lparr>call_id = ''call_'' @ take 8 (filter (\<lambda>c. c \<noteq> CHR ''-'') u),
             call_type = ''function'',
             function_name = ''get_time'',
             function_arguments = ''{"tz":"UTC"}''\<rparr>)\<close>
  have occ: \<open>take 7 (''[Called get_time with args: {tz: UTC,}]'' @ post) = ''[Called''\<close> by simp
  have nob: \<open>CHR ''['' \<notin> set (tl ''[Called get_time with args: {tz: UTC,}]'')\<close> by simp
  have ne: \<open>''[Called get_time with args: {tz: UTC,}]'' \<noteq> []\<close> by simp
  have sc: \<open>\<And>u. parseSingleToolCall u ''[Called get_time with args: {tz: UTC,}]'' = Some (mk u)\<close>
    unfolding mk_def by (rule single_get_time_call)
  from bracket_segment_recovered [OF occ nob ne get_time_call_text sc, of uuids pre]
  obtain X Y k where
    r: \<open>parseBracketToolCalls uuids (pre @ ''[Called get_time with args: {tz: UTC,}]'' @ post)
          = Some (X @ mk (uuids k) # Y)\<close>
    by blast
  have m: "mk (uuids k) \<in> set (X @ mk (uuids k) # Y)" by simp
  have n: "function_name (mk (uuids k)) = ''get_time''" by (simp add: mk_def)
  have a: \<open>function_arguments (mk (uuids k)) = ''{"tz":"UTC"}''\<close> by (simp add: mk_def)
  have p: "JSON_parse (function_arguments (mk (uuids k))) = Some (JObject [(''tz'', JString ''UTC'')])"
    unfolding a using repaired_arguments by blast
  from r m n a p show ?thesis by blast
qed


section \<open>Properties of the request builder\<close>






end
